theory Spec2Isabelle
  imports Complex_Main "HOL-Library.Char_ord" "HOL-Library.List_Lexorder"
begin


section \<open>Placeholder identification: the text position analyser\<close>

text \<open>
  Python strings are modelled as \<^typ>\<open>string\<close>, one \<^typ>\<open>char\<close> per character; the
  model covers ASCII text, on which the regular-expression classes below are exactly
  the listed characters.
\<close>

subsection \<open>The pattern of \<open>detect_placeholder\<close>\<close>

text \<open>
  \<^verbatim>\<open>pattern = r"(\{\{[A-Za-z0-9_.$]*\}\}|\{[A-Za-z0-9_.$]*\}|PLACEHOLDER)"\<close>

  The character class excludes both braces, so the greedy star takes the longest run
  of class characters and no backtracking into it can make a failed branch succeed:
  a branch matches exactly when the closing braces follow that run.
\<close>

definition name_char :: "char \<Rightarrow> bool" where
  "name_char c = (c \<in> set ''ABCDEFGHIJKLMNOPQRSTUVWXYZabcdefghijklmnopqrstuvwxyz0123456789_.$'')"

definition match_braced :: "string \<Rightarrow> string \<Rightarrow> string \<Rightarrow> string option" where
  "match_braced opn cls s =
     (if take (length opn) s = opn then
        (let r = drop (length opn) s; n = takeWhile name_char r
         in if take (length cls) (dropWhile name_char r) = cls then Some (opn @ n @ cls) else None)
      else None)"

definition match_literal :: "string \<Rightarrow> string \<Rightarrow> string option" where
  "match_literal lit s = (if take (length lit) s = lit then Some lit else None)"

text \<open>The three alternatives are tried in the order the pattern lists them.\<close>

definition match_placeholder :: "string \<Rightarrow> string option" where
  "match_placeholder s =
     (case match_braced ''{{'' ''}}'' s of
        Some t \<Rightarrow> Some t
      | None \<Rightarrow>
          (case match_braced ''{'' ''}'' s of
             Some t \<Rightarrow> Some t
           | None \<Rightarrow> match_literal ''PLACEHOLDER'' s))"

lemma match_braced_prefix:
  "match_braced opn cls s = Some t \<Longrightarrow> take (length t) s = t \<and> length opn \<le> length t"
proof -
  assume m: "match_braced opn cls s = Some t"
  define r where "r = drop (length opn) s"
  have o: "take (length opn) s = opn"
    using m by (auto simp: match_braced_def split: if_splits)
  have c: "take (length cls) (dropWhile name_char r) = cls"
    using m by (auto simp: match_braced_def Let_def r_def split: if_splits)
  have t: "t = opn @ takeWhile name_char r @ cls"
    using m by (auto simp: match_braced_def Let_def r_def split: if_splits)
  have s: "s = opn @ r"
    using o by (metis append_take_drop_id r_def)
  have r: "r = takeWhile name_char r @ cls @ drop (length cls) (dropWhile name_char r)"
    using c by (metis append_take_drop_id takeWhile_dropWhile_id)
  have "s = t @ drop (length cls) (dropWhile name_char r)"
    using s r t by (metis append.assoc)
  then have "take (length t) s = t"
    by (metis append_eq_conv_conj)
  then show ?thesis using t by simp
qed

lemma match_literal_prefix:
  "match_literal lit s = Some t \<Longrightarrow> take (length t) s = t \<and> t = lit"
  by (cases "take (length lit) s = lit") (simp_all add: match_literal_def)

lemma match_placeholder_cases:
  assumes "match_placeholder s = Some t"
  shows "match_braced ''{{'' ''}}'' s = Some t \<or> match_braced ''{'' ''}'' s = Some t
         \<or> match_literal ''PLACEHOLDER'' s = Some t"
  using assms unfolding match_placeholder_def by (simp split: option.splits)

lemma match_placeholder_prefix:
  assumes "match_placeholder s = Some t"
  shows "take (length t) s = t \<and> 0 < length t"
  using match_placeholder_cases [OF assms]
proof (elim disjE)
  assume "match_braced ''{{'' ''}}'' s = Some t"
  from match_braced_prefix [OF this] show ?thesis by auto
next
  assume "match_braced ''{'' ''}'' s = Some t"
  from match_braced_prefix [OF this] show ?thesis by auto
next
  assume "match_literal ''PLACEHOLDER'' s = Some t"
  from match_literal_prefix [OF this] show ?thesis by auto
qed

lemma match_placeholder_shorter:
  "match_placeholder s = Some t \<Longrightarrow> length (drop (length t) s) < length s"
proof -
  assume "match_placeholder s = Some t"
  then have "take (length t) s = t" and "0 < length t"
    using match_placeholder_prefix by blast+
  then show ?thesis
    by (metis diff_less length_drop length_greater_0_conv take_Nil)
qed

text \<open>
  \<^verbatim>\<open>re.findall(pattern, prompt_template)\<close>: scan from the left; where the pattern
  matches, report the match and go on behind it, elsewhere move on by one character.
  The pattern has one group, which spans the whole match, so the list holds the
  matched texts.
\<close>

function findall_placeholder :: "string \<Rightarrow> string list" where
  "findall_placeholder s =
     (if s = [] then []
      else (case match_placeholder s of
              Some t \<Rightarrow> t # findall_placeholder (drop (length t) s)
            | None \<Rightarrow> findall_placeholder (tl s)))"
  by pat_completeness auto
termination
  by (relation "measure length") (auto dest: match_placeholder_shorter)

declare findall_placeholder.simps [simp del]

definition detect_placeholder :: "string \<Rightarrow> string list" where
  "detect_placeholder prompt_template = findall_placeholder prompt_template"

subsection \<open>Relative word positions\<close>

definition word_char :: "char \<Rightarrow> bool" where
  "word_char c = (c \<in> set ''ABCDEFGHIJKLMNOPQRSTUVWXYZabcdefghijklmnopqrstuvwxyz0123456789_'')"

text \<open>
  \<^verbatim>\<open>re.findall(r'\b\w+\b', text)\<close>: a match starts at a word character that follows a
  non-word character or the start, and the greedy \<^verbatim>\<open>\w+\<close> runs to the end of the word,
  where the closing \<^verbatim>\<open>\b\<close> holds. The matches are the maximal runs of word characters.
\<close>

function findall_words :: "string \<Rightarrow> string list" where
  "findall_words s =
     (case dropWhile (\<lambda>c. \<not> word_char c) s of
        [] \<Rightarrow> []
      | c # r \<Rightarrow> takeWhile word_char (c # r) # findall_words (dropWhile word_char (c # r)))"
  by pat_completeness auto
termination
proof (relation "measure length", simp, goal_cases)
  case (1 s c r)
  have "word_char c"
    using 1 hd_dropWhile [of "\<lambda>c. \<not> word_char c" s] by force
  then have "length (dropWhile word_char (c # r)) \<le> length r"
    by (simp add: length_dropWhile_le)
  moreover have "length (c # r) \<le> length s"
    using 1 length_dropWhile_le [of "\<lambda>c. \<not> word_char c" s] by simp
  ultimately show ?case by simp
qed

declare findall_words.simps [simp del]

text \<open>
  \<^verbatim>\<open>re.search(re.escape(placeholder), prompt_template)\<close> finds the leftmost place where the
  placeholder's text stands literally; the result is \<^verbatim>\<open>match.start()\<close>, or \<open>None\<close> when
  there is no occurrence.
\<close>

fun search_literal :: "string \<Rightarrow> string \<Rightarrow> nat option" where
  "search_literal p [] = (if p = [] then Some 0 else None)"
| "search_literal p (c # cs) =
     (if take (length p) (c # cs) = p then Some 0 else map_option Suc (search_literal p cs))"

text \<open>
  \<^verbatim>\<open>total_words / 3\<close> is Python's true division. The model divides in the reals; the
  comparison of an integer with the floating-point quotient agrees with it for every
  word count a text can have (below \<open>2 ^ 52\<close> the rounded quotient lies strictly
  between the same integers as the exact one).
\<close>

definition classify_relative_word_position :: "nat \<Rightarrow> nat \<Rightarrow> string" where
  "classify_relative_word_position word_position total_words =
     (if real word_position \<le> real total_words / 3 then ''Beginning''
      else if real word_position \<ge> real total_words / 3 * 2 then ''End''
      else ''Middle'')"

fun positions_loop :: "string \<Rightarrow> nat \<Rightarrow> string list \<Rightarrow> (string \<times> string) list" where
  "positions_loop prompt_template total_words [] = []"
| "positions_loop prompt_template total_words (placeholder # rest) =
     (case search_literal placeholder prompt_template of
        Some char_start \<Rightarrow>
          (let word_position = length (findall_words (take char_start prompt_template));
               position = classify_relative_word_position word_position total_words
           in (placeholder, position) # positions_loop prompt_template total_words rest)
      | None \<Rightarrow> positions_loop prompt_template total_words rest)"

definition calculate_relative_word_positions :: "string \<Rightarrow> string list \<Rightarrow> (string \<times> string) list" where
  "calculate_relative_word_positions prompt_template placeholders =
     (let total_words = length (findall_words prompt_template)
      in positions_loop prompt_template total_words placeholders)"


section \<open>The Python library, as the code uses it\<close>

text \<open>
  Both modules lean on the standard library: \<^verbatim>\<open>json\<close>, \<^verbatim>\<open>difflib\<close>, \<^verbatim>\<open>float\<close>,
  \<^verbatim>\<open>time.sleep\<close> and a few string methods. The string methods are written out below.
  The other functions are parameters of the model, collected in the record \<open>pylib\<close>:
  every theorem about the repository's functions holds for whatever these functions
  compute, and says so where it needs a fact about them.
\<close>

subsection \<open>Values and exceptions\<close>

text \<open>
  What \<^verbatim>\<open>json.loads\<close> can return. A \<^verbatim>\<open>dict\<close> keeps its keys in insertion order, each
  key once: an association list. \<open>JFloat\<close> stands for a finite Python float.
\<close>

datatype json =
    JNull
  | JBool bool
  | JInt int
  | JFloat real
  | JString string
  | JArray "json list"
  | JObject "(string \<times> json) list"

type_synonym dict = "(string \<times> json) list"

text \<open>
  The exception classes the handlers tell apart, each with the text \<^verbatim>\<open>str(e)\<close> gives;
  \<open>OtherError\<close> is any other subclass of \<^verbatim>\<open>Exception\<close>.
  \<^verbatim>\<open>json.JSONDecodeError\<close> is a subclass of \<^verbatim>\<open>ValueError\<close>.
\<close>

datatype exn =
    JSONDecodeError string
  | ValueError string
  | TypeError string
  | AttributeError string
  | IndexError string
  | KeyError string
  | OverflowError string
  | OtherError string

fun str_exn :: "exn \<Rightarrow> string" where
  "str_exn (JSONDecodeError m) = m"
| "str_exn (ValueError m) = m"
| "str_exn (TypeError m) = m"
| "str_exn (AttributeError m) = m"
| "str_exn (IndexError m) = m"
| "str_exn (KeyError m) = m"
| "str_exn (OverflowError m) = m"
| "str_exn (OtherError m) = m"

fun is_JSONDecodeError :: "exn \<Rightarrow> bool" where
  "is_JSONDecodeError (JSONDecodeError m) = True"
| "is_JSONDecodeError e = False"

fun is_ValueError :: "exn \<Rightarrow> bool" where
  "is_ValueError (ValueError m) = True"
| "is_ValueError (JSONDecodeError m) = True"
| "is_ValueError e = False"

fun is_IndexError :: "exn \<Rightarrow> bool" where
  "is_IndexError (IndexError m) = True"
| "is_IndexError e = False"

subsection \<open>Library functions taken as parameters\<close>

text \<open>
  \<^item> \<open>json_loads s\<close> is \<^verbatim>\<open>json.loads(s)\<close>: the value, or the exception it raises.
  \<^item> \<open>json_dumps v\<close> is \<^verbatim>\<open>json.dumps(v)\<close>.
  \<^item> \<open>ratio a b\<close> is \<^verbatim>\<open>SequenceMatcher(None, a, b).ratio()\<close>, the float read as a real.
  \<^item> \<open>py_float s\<close> is \<^verbatim>\<open>float(s)\<close>: the value, or the exception it raises.
  \<^item> \<open>time_sleep w\<close> is \<^verbatim>\<open>time.sleep(w)\<close>: \<open>None\<close> when it returns after the pause,
    or the exception it raises at once (a negative length is a \<^verbatim>\<open>ValueError\<close>).
\<close>

record pylib =
  json_loads :: "string \<Rightarrow> exn + json"
  json_dumps :: "json \<Rightarrow> string"
  ratio :: "string \<Rightarrow> string \<Rightarrow> real"
  py_float :: "string \<Rightarrow> exn + real"
  time_sleep :: "real \<Rightarrow> exn option"

subsection \<open>String methods\<close>

definition lower_char :: "char \<Rightarrow> char" where
  "lower_char c =
     (case map_of (zip ''ABCDEFGHIJKLMNOPQRSTUVWXYZ'' ''abcdefghijklmnopqrstuvwxyz'') c of
        Some l \<Rightarrow> l
      | None \<Rightarrow> c)"

definition lower :: "string \<Rightarrow> string" where
  "lower s = map lower_char s"

text \<open>\<^verbatim>\<open>sub in s\<close>.\<close>

definition str_contains :: "string \<Rightarrow> string \<Rightarrow> bool" where
  "str_contains sub s = (search_literal sub s \<noteq> None)"

text \<open>
  \<^verbatim>\<open>s.split(sep)\<close> for a non-empty separator: the pieces between the occurrences of
  \<open>sep\<close>, found from the left without overlap. \<open>cur\<close> is the piece being read.
\<close>

function split_from :: "string \<Rightarrow> string \<Rightarrow> string \<Rightarrow> string list" where
  "split_from sep cur s =
     (if s = [] then [cur]
      else if sep \<noteq> [] \<and> take (length sep) s = sep
        then cur # split_from sep [] (drop (length sep) s)
        else split_from sep (cur @ [hd s]) (tl s))"
  by pat_completeness auto
termination
  by (relation "measure (\<lambda>(sep, cur, s). length s)") auto

declare split_from.simps [simp del]

definition py_split :: "string \<Rightarrow> string \<Rightarrow> string list" where
  "py_split sep s = split_from sep [] s"

text \<open>\<^verbatim>\<open>xs[-1]\<close> and \<^verbatim>\<open>xs[0]\<close>.\<close>

definition index_last :: "'a list \<Rightarrow> exn + 'a" where
  "index_last xs = (if xs = [] then Inl (IndexError ''list index out of range'') else Inr (last xs))"

definition index_first :: "'a list \<Rightarrow> exn + 'a" where
  "index_first xs = (case xs of [] \<Rightarrow> Inl (IndexError ''list index out of range'') | x # _ \<Rightarrow> Inr x)"

text \<open>\<^verbatim>\<open>s.strip()\<close>: the ASCII characters for which \<^verbatim>\<open>str.isspace\<close> holds.\<close>

definition py_space :: "char \<Rightarrow> bool" where
  "py_space c = (c \<in> set [CHR 0x09, CHR 0x0A, CHR 0x0B, CHR 0x0C, CHR 0x0D,
                            CHR 0x1C, CHR 0x1D, CHR 0x1E, CHR 0x1F, CHR 0x20])"

definition strip :: "string \<Rightarrow> string" where
  "strip s = rev (dropWhile py_space (rev (dropWhile py_space s)))"


section \<open>Component identification\<close>

definition EXPECTED_COMPONENTS :: "string list" where
  "EXPECTED_COMPONENTS =
     [''profile/role'', ''directive'', ''workflows'', ''context'', ''examples'',
      ''output format/style'', ''constraints'', ''others'']"

subsection \<open>\<open>get_default_response\<close>\<close>

text \<open>\<^verbatim>\<open>{key: "" for key in EXPECTED_COMPONENTS}\<close>\<close>

definition default_components :: dict where
  "default_components = map (\<lambda>key. (key, JString '''')) EXPECTED_COMPONENTS"

definition get_default_response :: "pylib \<Rightarrow> string" where
  "get_default_response lib = json_dumps lib (JObject default_components)"

subsection \<open>\<open>find_best_match\<close>\<close>

fun best_match_loop :: "pylib \<Rightarrow> string \<Rightarrow> string list \<Rightarrow> string option \<times> real \<Rightarrow> string option \<times> real" where
  "best_match_loop lib expected_module [] (best_match, best_ratio) = (best_match, best_ratio)"
| "best_match_loop lib expected_module (key # keys) (best_match, best_ratio) =
     (let r = ratio lib key expected_module
      in if r > best_ratio
         then best_match_loop lib expected_module keys (Some key, r)
         else best_match_loop lib expected_module keys (best_match, best_ratio))"

definition find_best_match :: "pylib \<Rightarrow> string list \<Rightarrow> string \<Rightarrow> string option \<times> real" where
  "find_best_match lib keys expected_module = best_match_loop lib expected_module keys (None, 0)"

subsection \<open>\<open>validate_and_clean_response\<close>\<close>

text \<open>\<^verbatim>\<open>d[key] = value\<close>: a new key goes to the end, a known key keeps its place.\<close>

fun dict_set :: "dict \<Rightarrow> string \<Rightarrow> json \<Rightarrow> dict" where
  "dict_set [] key v = [(key, v)]"
| "dict_set ((k, w) # d) key v = (if k = key then (k, v) # d else (k, w) # dict_set d key v)"

text \<open>\<^verbatim>\<open>d[key]\<close>; the text of a \<^verbatim>\<open>KeyError\<close> is the \<^verbatim>\<open>repr\<close> of the key.\<close>

definition dict_get :: "dict \<Rightarrow> string \<Rightarrow> exn + json" where
  "dict_get d key = (case map_of d key of None \<Rightarrow> Inl (KeyError key) | Some v \<Rightarrow> Inr v)"

text \<open>
  \<^verbatim>\<open>if best_match and best_ratio > similarity_threshold\<close>: \<open>None\<close> and the empty string
  are false.
\<close>

definition truthy :: "string option \<Rightarrow> bool" where
  "truthy m = (case m of None \<Rightarrow> False | Some k \<Rightarrow> k \<noteq> [])"

fun clean_loop :: "pylib \<Rightarrow> dict \<Rightarrow> real \<Rightarrow> string list \<Rightarrow> dict \<Rightarrow> exn + dict" where
  "clean_loop lib components similarity_threshold [] cleaned_response = Inr cleaned_response"
| "clean_loop lib components similarity_threshold (expected_component # rest) cleaned_response =
     (case find_best_match lib (map fst components) expected_component of
        (best_match, best_ratio) \<Rightarrow>
          if truthy best_match \<and> best_ratio > similarity_threshold
          then (case dict_get components (the best_match) of
                  Inl e \<Rightarrow> Inl e
                | Inr v \<Rightarrow> clean_loop lib components similarity_threshold rest
                            (dict_set cleaned_response expected_component v))
          else clean_loop lib components similarity_threshold rest
                 (dict_set cleaned_response expected_component (JString '''')))"

text \<open>The name Python gives the type of a value, as it stands in an \<^verbatim>\<open>AttributeError\<close>.\<close>

fun type_name :: "json \<Rightarrow> string" where
  "type_name JNull = ''NoneType''"
| "type_name (JBool b) = ''bool''"
| "type_name (JInt i) = ''int''"
| "type_name (JFloat x) = ''float''"
| "type_name (JString s) = ''str''"
| "type_name (JArray xs) = ''list''"
| "type_name (JObject d) = ''dict''"

definition no_attribute :: "json \<Rightarrow> string \<Rightarrow> exn" where
  "no_attribute v attr =
     AttributeError ([CHR 0x27] @ type_name v @ [CHR 0x27] @ '' object has no attribute ''
                     @ [CHR 0x27] @ attr @ [CHR 0x27])"

text \<open>
  The body of the \<^verbatim>\<open>try\<close>. \<^verbatim>\<open>components.keys()\<close> is evaluated in the first round of the
  loop; on anything but a \<^verbatim>\<open>dict\<close> it raises.
\<close>

definition clean_components :: "pylib \<Rightarrow> json \<Rightarrow> real \<Rightarrow> exn + dict" where
  "clean_components lib components similarity_threshold =
     (case components of
        JObject d \<Rightarrow> clean_loop lib d similarity_threshold EXPECTED_COMPONENTS []
      | _ \<Rightarrow> Inl (no_attribute components ''keys''))"

text \<open>Only \<^verbatim>\<open>json.JSONDecodeError\<close> is caught; any other exception leaves the function.\<close>

definition validate_and_clean_response :: "pylib \<Rightarrow> string \<Rightarrow> real \<Rightarrow> exn + string" where
  "validate_and_clean_response lib response similarity_threshold =
     (case json_loads lib (lower response) of
        Inl e \<Rightarrow> if is_JSONDecodeError e then Inr (get_default_response lib) else Inl e
      | Inr components \<Rightarrow>
          (case clean_components lib components similarity_threshold of
             Inl e \<Rightarrow> if is_JSONDecodeError e then Inr (get_default_response lib) else Inl e
           | Inr cleaned_response \<Rightarrow> Inr (json_dumps lib (JObject cleaned_response))))"


subsection \<open>\<open>component_detection\<close>\<close>

text \<open>
  The external capability. One call of \<^verbatim>\<open>client.chat.completions.create\<close> followed by
  \<^verbatim>\<open>chat_completion.choices[0].message.content\<close> either hands a text to the validator
  or ends in an exception inside the \<^verbatim>\<open>try\<close> (the request fails, the list of choices is
  empty, or the content is \<^verbatim>\<open>None\<close> and has no \<^verbatim>\<open>lower\<close>); \<open>Raises\<close> carries the text
  \<^verbatim>\<open>str(e)\<close> of that exception. The request text is fixed by the prompt, so the capability is a function
  of the prompt and of the number of calls made before: \<open>client prompt k\<close> is what
  call number \<open>k\<close> (from 0) does.
\<close>

datatype completion = Raises string | Content string

type_synonym client = "string \<Rightarrow> nat \<Rightarrow> completion"

text \<open>What a run has done so far: the calls made and the pauses taken, in order.\<close>

record run_state =
  calls :: nat
  slept :: "real list"

definition initial_state :: run_state where
  "initial_state = \<lparr>calls = 0, slept = []\<rparr>"

definition do_sleep :: "run_state \<Rightarrow> real \<Rightarrow> run_state" where
  "do_sleep st w = st\<lparr>slept := slept st @ [w]\<rparr>"

text \<open>\<^verbatim>\<open>error_message.split('in ')[-1].split('s')[0]\<close>\<close>

definition wait_field :: "string \<Rightarrow> exn + string" where
  "wait_field error_message =
     (case index_last (py_split ''in '' error_message) of
        Inl e \<Rightarrow> Inl e
      | Inr piece \<Rightarrow> index_first (py_split ''s'' piece))"

text \<open>
  \<^verbatim>\<open>return component_detection(prompt)\<close>: the function has three required parameters,
  so the call raises before the body runs.
\<close>

definition missing_arguments :: exn where
  "missing_arguments =
     TypeError (''component_detection() missing 2 required positional arguments: ''
                @ [CHR 0x27] @ ''client'' @ [CHR 0x27] @ '' and '' @ [CHR 0x27] @ ''model'' @ [CHR 0x27])"

text \<open>The inner handler \<^verbatim>\<open>except (IndexError, ValueError)\<close>.\<close>

definition rate_limit_fallback :: "run_state \<Rightarrow> (exn + string) \<times> run_state" where
  "rate_limit_fallback st = (Inl missing_arguments, do_sleep st 60)"

definition caught_by_fallback :: "exn \<Rightarrow> bool" where
  "caught_by_fallback e = (is_IndexError e \<or> is_ValueError e)"

text \<open>The outer handler \<^verbatim>\<open>except Exception as e\<close>, given \<^verbatim>\<open>str(e)\<close>.\<close>

definition on_exception :: "pylib \<Rightarrow> string \<Rightarrow> run_state \<Rightarrow> (exn + string) \<times> run_state" where
  "on_exception lib error_message st =
     (if str_contains ''429'' error_message \<or> str_contains ''Rate limit reached'' error_message then
        (case wait_field error_message of
           Inl e \<Rightarrow> if caught_by_fallback e then rate_limit_fallback st else (Inl e, st)
         | Inr field \<Rightarrow>
             (case py_float lib field of
                Inl e \<Rightarrow> if caught_by_fallback e then rate_limit_fallback st else (Inl e, st)
              | Inr wait_time \<Rightarrow>
                  (case time_sleep lib wait_time of
                     Some e \<Rightarrow> if caught_by_fallback e then rate_limit_fallback st else (Inl e, st)
                   | None \<Rightarrow> (Inr (get_default_response lib), do_sleep st wait_time))))
      else (Inr (get_default_response lib), st))"

definition component_detection ::
    "pylib \<Rightarrow> string \<Rightarrow> client \<Rightarrow> run_state \<Rightarrow> (exn + string) \<times> run_state" where
  "component_detection lib prompt client st =
     (let st' = st\<lparr>calls := Suc (calls st)\<rparr>
      in case client prompt (calls st) of
           Raises error_message \<Rightarrow> on_exception lib error_message st'
         | Content response \<Rightarrow>
             (case validate_and_clean_response lib response (7 / 10) of
                Inr cleaned \<Rightarrow> (Inr cleaned, st')
              | Inl e \<Rightarrow> on_exception lib (str_exn e) st'))"

subsection \<open>\<open>detect_component_with_retry\<close>\<close>

text \<open>
  The \<^verbatim>\<open>while\<close> loop. Both \<^verbatim>\<open>except\<close> clauses count a retry; they differ in what they
  print. The value returned is whatever \<^verbatim>\<open>json.loads\<close> gives: a \<^verbatim>\<open>dict\<close> inside the
  loop, the parsed default response behind it.
\<close>

function retry_loop ::
    "pylib \<Rightarrow> string \<Rightarrow> client \<Rightarrow> int \<Rightarrow> string \<Rightarrow> int \<Rightarrow> run_state \<Rightarrow> (exn + json) \<times> run_state" where
  "retry_loop lib prompt client max_retries default_response retries st =
     (if retries < max_retries then
        (case component_detection lib prompt client st of
           (Inl e, st') \<Rightarrow>
             retry_loop lib prompt client max_retries default_response (retries + 1) st'
         | (Inr response, st') \<Rightarrow>
             (case json_loads lib response of
                Inl e \<Rightarrow>
                  retry_loop lib prompt client max_retries default_response (retries + 1) st'
              | Inr components \<Rightarrow>
                  if response = default_response then
                    retry_loop lib prompt client max_retries default_response (retries + 1) st'
                  else (case components of
                          JObject d \<Rightarrow> (Inr components, st')
                        | _ \<Rightarrow>
                          retry_loop lib prompt client max_retries default_response (retries + 1) st')))
      else (json_loads lib (get_default_response lib), st))"
  by pat_completeness auto
termination
  by (relation "measure (\<lambda>(lib, prompt, client, max_retries, default_response, retries, st).
        nat (max_retries - retries))") auto

declare retry_loop.simps [simp del]

definition detect_component_with_retry ::
    "pylib \<Rightarrow> string \<Rightarrow> client \<Rightarrow> int \<Rightarrow> (exn + json) \<times> run_state" where
  "detect_component_with_retry lib prompt client max_retries =
     retry_loop lib prompt client max_retries (get_default_response lib) 0 initial_state"


section \<open>Placeholder identification: classification\<close>

definition PLACEHOLDER_CATEGORIES :: "string list" where
  "PLACEHOLDER_CATEGORIES =
     [''User Question'', ''Contextual Information'', ''Knowledge Input'',
      ''Metadata/Short Phrases'', ''Others'']"

subsection \<open>\<open>difflib.get_close_matches\<close>\<close>

text \<open>
  \<^verbatim>\<open>get_close_matches(word, possibilities, n=1, cutoff)\<close>, after the library's source.
  With \<^verbatim>\<open>s.set_seq2(word)\<close> and \<^verbatim>\<open>s.set_seq1(x)\<close> the possibility is the first sequence.
  The two quick ratios are plain counting; the full ratio is the library parameter.
\<close>

definition calculate_ratio :: "nat \<Rightarrow> nat \<Rightarrow> real" where
  "calculate_ratio matches len = (if len \<noteq> 0 then 2 * real matches / real len else 1)"

definition real_quick_ratio :: "string \<Rightarrow> string \<Rightarrow> real" where
  "real_quick_ratio a b = calculate_ratio (min (length a) (length b)) (length a + length b)"

text \<open>Every element of \<open>a\<close> that is still available in \<open>b\<close> counts once and uses one up.\<close>

fun quick_matches :: "string \<Rightarrow> string \<Rightarrow> nat" where
  "quick_matches [] avail = 0"
| "quick_matches (elt # a) avail =
     (if elt \<in> set avail then Suc (quick_matches a (remove1 elt avail))
      else quick_matches a avail)"

definition quick_ratio :: "string \<Rightarrow> string \<Rightarrow> real" where
  "quick_ratio a b = calculate_ratio (quick_matches a b) (length a + length b)"

fun close_candidates :: "pylib \<Rightarrow> string \<Rightarrow> real \<Rightarrow> string list \<Rightarrow> (real \<times> string) list" where
  "close_candidates lib word cutoff [] = []"
| "close_candidates lib word cutoff (x # possibilities) =
     (if real_quick_ratio x word \<ge> cutoff \<and> quick_ratio x word \<ge> cutoff \<and> ratio lib x word \<ge> cutoff
      then (ratio lib x word, x) # close_candidates lib word cutoff possibilities
      else close_candidates lib word cutoff possibilities)"

text \<open>
  \<^verbatim>\<open>heapq.nlargest(1, result)\<close> is \<^verbatim>\<open>max(result)\<close> on pairs: the higher score wins, equal
  scores are decided by the strings, and the first of several maxima is kept.
\<close>

definition pair_less :: "real \<times> string \<Rightarrow> real \<times> string \<Rightarrow> bool" where
  "pair_less p q = (fst p < fst q \<or> (fst p = fst q \<and> snd p < snd q))"

fun max_from :: "real \<times> string \<Rightarrow> (real \<times> string) list \<Rightarrow> real \<times> string" where
  "max_from best [] = best"
| "max_from best (item # items) = (if pair_less best item then max_from item items else max_from best items)"

definition nlargest1 :: "(real \<times> string) list \<Rightarrow> (real \<times> string) list" where
  "nlargest1 result = (case result of [] \<Rightarrow> [] | item # items \<Rightarrow> [max_from item items])"

definition get_close_matches :: "pylib \<Rightarrow> string \<Rightarrow> string list \<Rightarrow> real \<Rightarrow> string list" where
  "get_close_matches lib word possibilities cutoff =
     map snd (nlargest1 (close_candidates lib word cutoff possibilities))"

subsection \<open>\<open>classify_placeholder_with_llm\<close>\<close>

text \<open>
  The capability is called once with a request built from the placeholder and the
  template; \<open>llm placeholder prompt_template\<close> is what that call does. The body of the
  \<^verbatim>\<open>try\<close> comes first, then the function with its \<^verbatim>\<open>except Exception\<close>.
\<close>

type_synonym llm = "string \<Rightarrow> string \<Rightarrow> completion"

definition classify_body :: "pylib \<Rightarrow> llm \<Rightarrow> string \<Rightarrow> string \<Rightarrow> exn + string" where
  "classify_body lib llm placeholder prompt_template =
     (case llm placeholder prompt_template of
        Raises error_message \<Rightarrow> Inl (OtherError error_message)
      | Content content \<Rightarrow>
          (let response = strip content;
               best_match = get_close_matches lib response PLACEHOLDER_CATEGORIES (6 / 10)
           in case best_match of
                [] \<Rightarrow> Inr ''Others''
              | m # _ \<Rightarrow> Inr m))"

definition classify_placeholder_with_llm :: "pylib \<Rightarrow> llm \<Rightarrow> string \<Rightarrow> string \<Rightarrow> exn + string" where
  "classify_placeholder_with_llm lib llm placeholder prompt_template =
     (case classify_body lib llm placeholder prompt_template of
        Inl e \<Rightarrow> Inr ''Others''
      | Inr category \<Rightarrow> Inr category)"

subsection \<open>\<open>identify_placeholders\<close>\<close>

text \<open>
  One call of the capability per entry, in order: \<open>llms k\<close> is what call number \<open>k\<close>
  does. An exception of \<open>classify_placeholder_with_llm\<close> would end the loop.
\<close>

fun classify_all ::
    "pylib \<Rightarrow> (nat \<Rightarrow> llm) \<Rightarrow> string \<Rightarrow> nat \<Rightarrow> (string \<times> string) list
       \<Rightarrow> exn + (string \<times> string \<times> string) list" where
  "classify_all lib llms prompt_template k [] = Inr []"
| "classify_all lib llms prompt_template k ((placeholder, position) # rest) =
     (case classify_placeholder_with_llm lib (llms k) placeholder prompt_template of
        Inl e \<Rightarrow> Inl e
      | Inr category \<Rightarrow>
          (case classify_all lib llms prompt_template (Suc k) rest of
             Inl e \<Rightarrow> Inl e
           | Inr classifications \<Rightarrow> Inr ((placeholder, category, position) # classifications)))"

definition identify_placeholders ::
    "pylib \<Rightarrow> (nat \<Rightarrow> llm) \<Rightarrow> string \<Rightarrow> exn + (string \<times> string \<times> string) list" where
  "identify_placeholders lib llms prompt_template =
     (let placeholder_list = detect_placeholder prompt_template;
          relative_positions = calculate_relative_word_positions prompt_template placeholder_list
      in classify_all lib llms prompt_template 0 relative_positions)"


section \<open>A reference library for the examples\<close>

text \<open>
  The theorems below hold for every library. Their examples need one: this section
  writes the library functions out on a fragment of their inputs, after CPython 3.11,
  and collects them in \<open>reference_lib\<close>. The fragment is ASCII text without
  floating-point numbers and without \<^verbatim>\<open>\u\<close> escapes; outside it the functions answer
  \<open>Unmodelled\<close> (or \<open>None\<close>) instead of guessing.
\<close>

subsection \<open>Decimal and hexadecimal digits\<close>

definition digit_char :: "char \<Rightarrow> bool" where
  "digit_char c = (c \<in> set ''0123456789'')"

definition digit_value :: "char \<Rightarrow> nat" where
  "digit_value c = (case search_literal [c] ''0123456789'' of Some i \<Rightarrow> i | None \<Rightarrow> 0)"

definition digits_value :: "string \<Rightarrow> nat" where
  "digits_value ds = foldl (\<lambda>n c. 10 * n + digit_value c) 0 ds"

function show_nat :: "nat \<Rightarrow> string" where
  "show_nat n = (if n < 10 then [''0123456789'' ! n] else show_nat (n div 10) @ [''0123456789'' ! (n mod 10)])"
  by pat_completeness auto
termination
  by (relation "measure id") auto

declare show_nat.simps [simp del]

definition show_int :: "int \<Rightarrow> string" where
  "show_int i = (if i < 0 then CHR ''-'' # show_nat (nat (- i)) else show_nat (nat i))"

definition hex4 :: "nat \<Rightarrow> string" where
  "hex4 n = map (\<lambda>d. ''0123456789abcdef'' ! d) [n div 4096 mod 16, n div 256 mod 16, n div 16 mod 16, n mod 16]"

subsection \<open>\<open>json.loads\<close>\<close>

text \<open>
  The result of scanning: a value and the text behind it; a decode error with its
  message and the number of characters that were left at the place it names; or a
  text outside the fragment.
\<close>

datatype 'a scanned = Scanned 'a string | Failed string nat | Unmodelled

definition ws_char :: "char \<Rightarrow> bool" where
  "ws_char c = (c \<in> set [CHR 0x20, CHR 0x09, CHR 0x0A, CHR 0x0D])"

definition skip_ws :: "string \<Rightarrow> string" where
  "skip_ws s = dropWhile ws_char s"

definition BACKSLASH :: "(char \<times> char) list" where
  "BACKSLASH =
     [(CHR 0x22, CHR 0x22), (CHR 0x5C, CHR 0x5C), (CHR ''/'', CHR ''/''),
      (CHR ''b'', CHR 0x08), (CHR ''f'', CHR 0x0C), (CHR ''n'', CHR 0x0A),
      (CHR ''r'', CHR 0x0D), (CHR ''t'', CHR 0x09)]"

text \<open>
  \<open>scanstring begin acc s\<close> reads a string behind its opening quote; \<open>begin\<close> is the
  number of characters that were left at the opening quote.
\<close>

fun scanstring :: "nat \<Rightarrow> string \<Rightarrow> string \<Rightarrow> string scanned" where
  "scanstring begin acc [] = Failed ''Unterminated string starting at'' begin"
| "scanstring begin acc [c] =
     (if c = CHR 0x22 then Scanned acc []
      else Failed ''Unterminated string starting at'' begin)"
| "scanstring begin acc (c # esc # rest) =
     (if c = CHR 0x22 then Scanned acc (esc # rest)
      else if c = CHR 0x5C then
        (if esc = CHR ''u'' then Unmodelled
         else (case map_of BACKSLASH esc of
                 None \<Rightarrow> Failed (''Invalid '' @ [CHR 0x5C] @ ''escape'') (Suc (Suc (length rest)))
               | Some ch \<Rightarrow> scanstring begin (acc @ [ch]) rest))
      else if (of_char c :: nat) < 32 then Failed ''Invalid control character at'' (Suc (Suc (length rest)))
      else if (of_char c :: nat) \<ge> 128 then Unmodelled
      else scanstring begin (acc @ [c]) (esc # rest))"

text \<open>
  \<^verbatim>\<open>NUMBER_RE\<close>: the integer part, and whether a fraction or an exponent follows it
  (then the number is a float, outside the fragment). \<^verbatim>\<open>int\<close> refuses more than 4300
  digits with a plain \<^verbatim>\<open>ValueError\<close>; such numbers are left out as well.
\<close>

definition integer_part :: "string \<Rightarrow> (string \<times> string) option" where
  "integer_part s =
     (case s of
        [] \<Rightarrow> None
      | c # cs \<Rightarrow>
          if c = CHR ''0'' then Some ([c], cs)
          else if digit_char c then Some (takeWhile digit_char s, dropWhile digit_char s)
          else None)"

definition starts_fraction :: "string \<Rightarrow> bool" where
  "starts_fraction s = (case s of c # d # _ \<Rightarrow> c = CHR ''.'' \<and> digit_char d | _ \<Rightarrow> False)"

definition starts_exponent :: "string \<Rightarrow> bool" where
  "starts_exponent s =
     (case s of
        c # d # r \<Rightarrow>
          (c = CHR ''e'' \<or> c = CHR ''E'')
          \<and> (digit_char d \<or> ((d = CHR ''+'' \<or> d = CHR ''-'') \<and> (case r of x # _ \<Rightarrow> digit_char x | [] \<Rightarrow> False)))
      | _ \<Rightarrow> False)"

definition scan_number :: "string \<Rightarrow> json scanned option" where
  "scan_number s =
     (let negative = (take 1 s = ''-''); body = (if negative then drop 1 s else s)
      in case integer_part body of
           None \<Rightarrow> None
         | Some (ds, rest) \<Rightarrow>
             if starts_fraction rest \<or> starts_exponent rest \<or> length ds > 4300 then Some Unmodelled
             else Some (Scanned (JInt (if negative then - int (digits_value ds) else int (digits_value ds))) rest))"

text \<open>
  \<^verbatim>\<open>scan_once\<close>, \<^verbatim>\<open>JSONObject\<close> and \<^verbatim>\<open>JSONArray\<close>. The first argument bounds the number
  of values and members still to be read, which the length of the text exceeds.
  \<open>scan_members\<close> starts at the quote that opens a key, \<open>scan_elements\<close> where an
  element is expected.
\<close>

fun scan_once :: "nat \<Rightarrow> string \<Rightarrow> json scanned"
  and scan_members :: "nat \<Rightarrow> dict \<Rightarrow> string \<Rightarrow> json scanned"
  and scan_elements :: "nat \<Rightarrow> json list \<Rightarrow> string \<Rightarrow> json scanned" where
  "scan_once 0 s = Unmodelled"
| "scan_once (Suc n) s =
     (if s = [] then Failed ''Expecting value'' 0
      else if hd s = CHR 0x22 then
        (case scanstring (length s) [] (tl s) of
           Scanned str rest \<Rightarrow> Scanned (JString str) rest
         | Failed msg k \<Rightarrow> Failed msg k
         | Unmodelled \<Rightarrow> Unmodelled)
      else if hd s = CHR ''{'' then
        (let r = skip_ws (tl s)
         in if take 1 r = ''}'' then Scanned (JObject []) (drop 1 r)
            else if take 1 r = [CHR 0x22] then scan_members n [] r
            else Failed ''Expecting property name enclosed in double quotes'' (length r))
      else if hd s = CHR ''['' then
        (let r = skip_ws (tl s)
         in if take 1 r = '']'' then Scanned (JArray []) (drop 1 r)
            else scan_elements n [] r)
      else if take 4 s = ''null'' then Scanned JNull (drop 4 s)
      else if take 4 s = ''true'' then Scanned (JBool True) (drop 4 s)
      else if take 5 s = ''false'' then Scanned (JBool False) (drop 5 s)
      else (case scan_number s of
              Some r \<Rightarrow> r
            | None \<Rightarrow>
                if take 3 s = ''NaN'' \<or> take 8 s = ''Infinity'' \<or> take 9 s = ''-Infinity'' then Unmodelled
                else if (of_char (hd s) :: nat) \<ge> 128 then Unmodelled
                else Failed ''Expecting value'' (length s)))"
| "scan_members 0 pairs s = Unmodelled"
| "scan_members (Suc n) pairs s =
     (case scanstring (length s) [] (tl s) of
        Failed msg k \<Rightarrow> Failed msg k
      | Unmodelled \<Rightarrow> Unmodelled
      | Scanned key r1 \<Rightarrow>
          (let r2 = skip_ws r1
           in if take 1 r2 \<noteq> '':'' then Failed (''Expecting '' @ [CHR 0x27] @ '':'' @ [CHR 0x27] @ '' delimiter'') (length r2)
              else (case scan_once n (skip_ws (drop 1 r2)) of
                      Failed msg k \<Rightarrow> Failed msg k
                    | Unmodelled \<Rightarrow> Unmodelled
                    | Scanned v r3 \<Rightarrow>
                        (let pairs' = dict_set pairs key v; r4 = skip_ws r3
                         in if take 1 r4 = ''}'' then Scanned (JObject pairs') (drop 1 r4)
                            else if take 1 r4 \<noteq> '','' then
                              Failed (''Expecting '' @ [CHR 0x27] @ '','' @ [CHR 0x27] @ '' delimiter'') (length r4)
                            else (let r5 = skip_ws (drop 1 r4)
                                  in if take 1 r5 = [CHR 0x22] then scan_members n pairs' r5
                                     else Failed ''Expecting property name enclosed in double quotes'' (length r5))))))"
| "scan_elements 0 vs s = Unmodelled"
| "scan_elements (Suc n) vs s =
     (case scan_once n s of
        Failed msg k \<Rightarrow> Failed msg k
      | Unmodelled \<Rightarrow> Unmodelled
      | Scanned v r1 \<Rightarrow>
          (let r2 = skip_ws r1
           in if take 1 r2 = '']'' then Scanned (JArray (vs @ [v])) (drop 1 r2)
              else if take 1 r2 \<noteq> '','' then
                Failed (''Expecting '' @ [CHR 0x27] @ '','' @ [CHR 0x27] @ '' delimiter'') (length r2)
              else scan_elements n (vs @ [v]) (skip_ws (drop 1 r2))))"

text \<open>The text of a \<^verbatim>\<open>JSONDecodeError\<close>: message, line, column and position.\<close>

definition decode_error :: "string \<Rightarrow> string \<Rightarrow> nat \<Rightarrow> exn" where
  "decode_error msg doc pos =
     (let front = take pos doc;
          lineno = length (filter (\<lambda>c. c = CHR 0x0A) front) + 1;
          colno = length (takeWhile (\<lambda>c. c \<noteq> CHR 0x0A) (rev front)) + 1
      in JSONDecodeError (msg @ '': line '' @ show_nat lineno @ '' column '' @ show_nat colno
                          @ '' (char '' @ show_nat pos @ '')''))"

text \<open>\<^verbatim>\<open>JSONDecoder.decode\<close>; \<open>None\<close> for a text outside the fragment.\<close>

definition loads_fragment :: "string \<Rightarrow> (exn + json) option" where
  "loads_fragment s =
     (case scan_once (Suc (length s)) (skip_ws s) of
        Unmodelled \<Rightarrow> None
      | Failed msg k \<Rightarrow> Some (Inl (decode_error msg s (length s - k)))
      | Scanned v rest \<Rightarrow>
          (let r = skip_ws rest
           in if r = [] then Some (Inr v)
              else Some (Inl (decode_error ''Extra data'' s (length s - length r)))))"


subsection \<open>\<open>json.dumps\<close>\<close>

text \<open>
  With the default \<^verbatim>\<open>ensure_ascii\<close>: the quote and the backslash are escaped, the control
  characters and DEL are written as escapes, every other ASCII character stands for
  itself. Items are joined by \<^verbatim>\<open>", "\<close>, a key and its value by \<^verbatim>\<open>": "\<close>.
\<close>

definition encode_char :: "char \<Rightarrow> string option" where
  "encode_char c =
     (if c = CHR 0x22 then Some [CHR 0x5C, CHR 0x22]
      else if c = CHR 0x5C then Some [CHR 0x5C, CHR 0x5C]
      else if c = CHR 0x0A then Some [CHR 0x5C, CHR ''n'']
      else if c = CHR 0x0D then Some [CHR 0x5C, CHR ''r'']
      else if c = CHR 0x09 then Some [CHR 0x5C, CHR ''t'']
      else if c = CHR 0x08 then Some [CHR 0x5C, CHR ''b'']
      else if c = CHR 0x0C then Some [CHR 0x5C, CHR ''f'']
      else if (of_char c :: nat) < 32 \<or> c = CHR 0x7F then Some ([CHR 0x5C, CHR ''u''] @ hex4 (of_char c))
      else if (of_char c :: nat) \<ge> 128 then None
      else Some [c])"

fun encode_chars :: "string \<Rightarrow> string option" where
  "encode_chars [] = Some []"
| "encode_chars (c # cs) =
     (case encode_char c of
        None \<Rightarrow> None
      | Some e \<Rightarrow> (case encode_chars cs of None \<Rightarrow> None | Some r \<Rightarrow> Some (e @ r)))"

definition encode_string :: "string \<Rightarrow> string option" where
  "encode_string s = map_option (\<lambda>body. [CHR 0x22] @ body @ [CHR 0x22]) (encode_chars s)"

fun join :: "string \<Rightarrow> string list \<Rightarrow> string" where
  "join sep [] = []"
| "join sep [x] = x"
| "join sep (x # y # ys) = x @ sep @ join sep (y # ys)"

fun dumps_fragment :: "json \<Rightarrow> string option"
  and dumps_items :: "json list \<Rightarrow> string list option"
  and dumps_pairs :: "dict \<Rightarrow> string list option" where
  "dumps_fragment JNull = Some ''null''"
| "dumps_fragment (JBool b) = Some (if b then ''true'' else ''false'')"
| "dumps_fragment (JInt i) = Some (show_int i)"
| "dumps_fragment (JFloat x) = None"
| "dumps_fragment (JString s) = encode_string s"
| "dumps_fragment (JArray vs) = map_option (\<lambda>items. ''['' @ join '', '' items @ '']'') (dumps_items vs)"
| "dumps_fragment (JObject d) = map_option (\<lambda>items. ''{'' @ join '', '' items @ ''}'') (dumps_pairs d)"
| "dumps_items [] = Some []"
| "dumps_items (v # vs) =
     (case dumps_fragment v of
        None \<Rightarrow> None
      | Some s \<Rightarrow> (case dumps_items vs of None \<Rightarrow> None | Some r \<Rightarrow> Some (s # r)))"
| "dumps_pairs [] = Some []"
| "dumps_pairs (kv # d) =
     (case encode_string (fst kv) of
        None \<Rightarrow> None
      | Some k \<Rightarrow>
          (case dumps_fragment (snd kv) of
             None \<Rightarrow> None
           | Some s \<Rightarrow> (case dumps_pairs d of None \<Rightarrow> None | Some r \<Rightarrow> Some ((k @ '': '' @ s) # r))))"

subsection \<open>\<open>SequenceMatcher(None, a, b).ratio()\<close>\<close>

text \<open>
  Without junk: for a second sequence of fewer than 200 elements, where the library's
  automatic junk heuristic is off. \<^verbatim>\<open>find_longest_match\<close> returns the longest common
  block, of several the one that starts first in \<open>a\<close>, then first in \<open>b\<close>; the
  matching blocks are that block and, recursively, those to its left and to its right.
\<close>

fun common_prefix :: "string \<Rightarrow> string \<Rightarrow> nat" where
  "common_prefix (x # xs) (y # ys) = (if x = y then Suc (common_prefix xs ys) else 0)"
| "common_prefix xs ys = 0"

definition block_candidates :: "string \<Rightarrow> string \<Rightarrow> (nat \<times> nat \<times> nat) list" where
  "block_candidates a b =
     concat (map (\<lambda>i. map (\<lambda>j. (i, j, common_prefix (drop i a) (drop j b))) [0..<length b]) [0..<length a])"

definition better_block :: "nat \<times> nat \<times> nat \<Rightarrow> nat \<times> nat \<times> nat \<Rightarrow> nat \<times> nat \<times> nat" where
  "better_block best c = (if snd (snd c) > snd (snd best) then c else best)"

definition find_longest_match :: "string \<Rightarrow> string \<Rightarrow> nat \<times> nat \<times> nat" where
  "find_longest_match a b = foldl better_block (0, 0, 0) (block_candidates a b)"

lemma foldl_better_block:
  "foldl better_block best cs = best \<or> foldl better_block best cs \<in> set cs"
proof (induction cs arbitrary: best)
  case Nil
  then show ?case by simp
next
  case (Cons c cs)
  from Cons.IH [of "better_block best c"] show ?case
    by (auto simp: better_block_def split: if_splits)
qed

lemma find_longest_match_range:
  assumes "find_longest_match a b = (i, j, k)" and "0 < k"
  shows "i < length a \<and> j < length b"
proof -
  have "(i, j, k) \<in> set (block_candidates a b)"
    using foldl_better_block [of "(0, 0, 0)" "block_candidates a b"] assms
    by (auto simp: find_longest_match_def)
  then show ?thesis by (auto simp: block_candidates_def)
qed

function matching_total :: "string \<Rightarrow> string \<Rightarrow> nat" where
  "matching_total a b =
     (case find_longest_match a b of
        (i, j, k) \<Rightarrow>
          if k = 0 then 0
          else k + (if 0 < i \<and> 0 < j then matching_total (take i a) (take j b) else 0)
                 + (if i + k < length a \<and> j + k < length b
                    then matching_total (drop (i + k) a) (drop (j + k) b) else 0))"
  by pat_completeness auto
termination
proof (relation "measure (\<lambda>(a, b). length a + length b)")
  show "wf (measure (\<lambda>(a, b). length a + length b))" by simp
next
  fix a b :: string and i j k :: nat and y :: "nat \<times> nat"
  assume "(i, y) = find_longest_match a b" "(j, k) = y" "k \<noteq> 0" "0 < i \<and> 0 < j"
  then have "find_longest_match a b = (i, j, k)" and "0 < k" by simp_all
  from find_longest_match_range [OF this]
  show "((take i a, take j b), (a, b)) \<in> measure (\<lambda>(a, b). length a + length b)" by simp
next
  fix a b :: string and i j k :: nat
  assume "k \<noteq> 0" "i + k < length a \<and> j + k < length b"
  then have "length a - (i + k) < length a" by arith
  then show "((drop (i + k) a, drop (j + k) b), (a, b)) \<in> measure (\<lambda>(a, b). length a + length b)"
    by simp
qed

declare matching_total.simps [simp del]

definition sequence_ratio :: "string \<Rightarrow> string \<Rightarrow> real" where
  "sequence_ratio a b = calculate_ratio (matching_total a b) (length a + length b)"

subsection \<open>\<open>float\<close> and \<open>time.sleep\<close>\<close>

text \<open>
  \<^verbatim>\<open>float\<close> on plain decimals (sign, digits, at most one point, surrounding blanks),
  and its refusal of a text with a character no float is written with. Exponents,
  underscores, infinities and NaN are left out.
\<close>

definition decimal_value :: "string \<Rightarrow> real option" where
  "decimal_value s =
     (let whole = takeWhile digit_char s; r = dropWhile digit_char s;
          frac = (if take 1 r = ''.'' then drop 1 r else [])
      in if (r = [] \<or> take 1 r = ''.'') \<and> list_all digit_char frac \<and> whole @ frac \<noteq> []
         then Some (real (digits_value whole) + real (digits_value frac) / 10 ^ length frac)
         else None)"

definition float_char :: "char \<Rightarrow> bool" where
  "float_char c = (c \<in> set ''0123456789+-._eEiInNfFaAtTyY'')"

definition plain_char :: "char \<Rightarrow> bool" where
  "plain_char c = ((of_char c :: nat) \<ge> 32 \<and> (of_char c :: nat) < 127 \<and> c \<noteq> CHR 0x27 \<and> c \<noteq> CHR 0x5C)"

definition float_fragment :: "string \<Rightarrow> (exn + real) option" where
  "float_fragment s =
     (let t = strip s;
          negative = (take 1 t = ''-'');
          body = (if negative \<or> take 1 t = ''+'' then drop 1 t else t)
      in case decimal_value body of
           Some x \<Rightarrow> Some (Inr (if negative then - x else x))
         | None \<Rightarrow>
             if (t = [] \<or> list_ex (\<lambda>c. \<not> float_char c) t) \<and> list_all plain_char s
             then Some (Inl (ValueError (''could not convert string to float: '' @ [CHR 0x27] @ s @ [CHR 0x27])))
             else None)"

text \<open>
  \<^verbatim>\<open>time.sleep\<close> refuses a negative length; a length beyond what the platform's clock
  holds is an \<^verbatim>\<open>OverflowError\<close>.
\<close>

definition sleep_check :: "real \<Rightarrow> exn option" where
  "sleep_check w =
     (if w > 9223372036 then Some (OverflowError ''timestamp out of range for platform time_t'')
      else if w < 0 then Some (ValueError ''sleep length must be non-negative'')
      else None)"

subsection \<open>The reference library\<close>

definition outside_fragment :: exn where
  "outside_fragment = OtherError ''outside the modelled fragment''"

definition reference_lib :: pylib where
  "reference_lib =
     \<lparr> json_loads = (\<lambda>s. case loads_fragment s of Some r \<Rightarrow> r | None \<Rightarrow> Inl outside_fragment),
       json_dumps = (\<lambda>v. case dumps_fragment v of Some s \<Rightarrow> s | None \<Rightarrow> []),
       ratio = sequence_ratio,
       py_float = (\<lambda>s. case float_fragment s of Some r \<Rightarrow> r | None \<Rightarrow> Inl outside_fragment),
       time_sleep = sleep_check \<rparr>"


section \<open>Sample responses and capabilities\<close>

text \<open>The inputs of the examples. \<open>dq\<close> is the double quote.\<close>

definition dq :: string where
  "dq = [CHR 0x22]"

text \<open>\<^verbatim>\<open>{"Directive": "Do X", "extra": 1}\<close>\<close>

definition response_directive :: string where
  "response_directive = ''{'' @ dq @ ''Directive'' @ dq @ '': '' @ dq @ ''Do X'' @ dq @ '', ''
                        @ dq @ ''extra'' @ dq @ '': 1}''"

text \<open>\<^verbatim>\<open>{"directive": null}\<close>\<close>

definition response_null :: string where
  "response_null = ''{'' @ dq @ ''directive'' @ dq @ '': null}''"

text \<open>A text that is no JSON document.\<close>

definition response_prose :: string where
  "response_prose = ''I cannot answer that.''"

text \<open>
  The eight keys, in order, with a directive and a constraint filled in:
  \<^verbatim>\<open>{"profile/role": "", "directive": "sum the list", "workflows": "", "context": "",
    "examples": "", "output format/style": "", "constraints": "no loops", "others": ""}\<close>
\<close>

definition canonical_components :: dict where
  "canonical_components =
     [(''profile/role'', JString ''''), (''directive'', JString ''sum the list''),
      (''workflows'', JString ''''), (''context'', JString ''''), (''examples'', JString ''''),
      (''output format/style'', JString ''''), (''constraints'', JString ''no loops''),
      (''others'', JString '''')]"

definition response_canonical :: string where
  "response_canonical =
     ''{'' @ dq @ ''profile/role'' @ dq @ '': '' @ dq @ dq @ '', ''
     @ dq @ ''directive'' @ dq @ '': '' @ dq @ ''sum the list'' @ dq @ '', ''
     @ dq @ ''workflows'' @ dq @ '': '' @ dq @ dq @ '', ''
     @ dq @ ''context'' @ dq @ '': '' @ dq @ dq @ '', ''
     @ dq @ ''examples'' @ dq @ '': '' @ dq @ dq @ '', ''
     @ dq @ ''output format/style'' @ dq @ '': '' @ dq @ dq @ '', ''
     @ dq @ ''constraints'' @ dq @ '': '' @ dq @ ''no loops'' @ dq @ '', ''
     @ dq @ ''others'' @ dq @ '': '' @ dq @ dq @ ''}''"

text \<open>Capabilities: one that always answers in prose, one that always fails, one that
  fails once and then answers, and one that is rate-limited with a wait given in minutes
  and seconds.\<close>

definition always_prose :: client where
  "always_prose prompt k = Content response_prose"

definition always_failing :: client where
  "always_failing prompt k = Raises ''Connection error.''"

definition failing_once :: client where
  "failing_once prompt k = (if k = 0 then Raises ''Connection error.'' else Content response_canonical)"

definition rate_limited :: client where
  "rate_limited prompt k = Raises ''Rate limit reached. Please try again in 1m2.5s.''"

text \<open>\<^verbatim>\<open>{"Directive": "Do X"}\<close>\<close>

definition response_short :: string where
  "response_short = ''{'' @ dq @ ''Directive'' @ dq @ '': '' @ dq @ ''Do X'' @ dq @ ''}''"

text \<open>A capability that gives the same answer on every call.\<close>

definition answering :: "string \<Rightarrow> client" where
  "answering response prompt k = Content response"

text \<open>The capability of the placeholder classifier: failing, or giving one answer.\<close>

definition llm_failing :: llm where
  "llm_failing placeholder prompt_template = Raises ''Connection error.''"

definition llm_answering :: "string \<Rightarrow> llm" where
  "llm_answering answer placeholder prompt_template = Content answer"

text \<open>
  The same eight keys with capital letters in two values:
  \<^verbatim>\<open>{"profile/role": "", "directive": "Sum The List", "workflows": "", "context": "",
    "examples": "", "output format/style": "", "constraints": "No Loops", "others": ""}\<close>
\<close>

definition capital_components :: dict where
  "capital_components =
     [(''profile/role'', JString ''''), (''directive'', JString ''Sum The List''),
      (''workflows'', JString ''''), (''context'', JString ''''), (''examples'', JString ''''),
      (''output format/style'', JString ''''), (''constraints'', JString ''No Loops''),
      (''others'', JString '''')]"

definition response_capitals :: string where
  "response_capitals =
     ''{'' @ dq @ ''profile/role'' @ dq @ '': '' @ dq @ dq @ '', ''
     @ dq @ ''directive'' @ dq @ '': '' @ dq @ ''Sum The List'' @ dq @ '', ''
     @ dq @ ''workflows'' @ dq @ '': '' @ dq @ dq @ '', ''
     @ dq @ ''context'' @ dq @ '': '' @ dq @ dq @ '', ''
     @ dq @ ''examples'' @ dq @ '': '' @ dq @ dq @ '', ''
     @ dq @ ''output format/style'' @ dq @ '': '' @ dq @ dq @ '', ''
     @ dq @ ''constraints'' @ dq @ '': '' @ dq @ ''No Loops'' @ dq @ '', ''
     @ dq @ ''others'' @ dq @ '': '' @ dq @ dq @ ''}''"

text \<open>A capability that fails once and then answers with the capital letters.\<close>

definition failing_once_capitals :: client where
  "failing_once_capitals prompt k =
     (if k = 0 then Raises ''Connection error.'' else Content response_capitals)"

text \<open>What the lower-cased \<open>response_directive\<close> parses to.\<close>

definition parsed_directive :: dict where
  "parsed_directive = [(''directive'', JString ''do x''), (''extra'', JInt 1)]"


section \<open>Vocabulary of the properties\<close>

subsection \<open>Placeholder tokens and their places\<close>





definition occurs_at :: "string \<Rightarrow> string \<Rightarrow> nat \<Rightarrow> bool" where
  "occurs_at p t i = (take (length p) (drop i t) = p)"

definition first_occurrence :: "string \<Rightarrow> string \<Rightarrow> nat \<Rightarrow> bool" where
  "first_occurrence p t i = (occurs_at p t i \<and> (\<forall>j<i. \<not> occurs_at p t j))"

subsection \<open>Cleaned component maps\<close>

text \<open>
  \<open>best_key lib keys e k\<close>: \<open>k\<close> is the best match for the expected component \<open>e\<close> among
  the keys: it stands in the list, its ratio to \<open>e\<close> is positive, every key before it
  has a smaller ratio and no key after it has a greater one.
\<close>

definition best_key :: "pylib \<Rightarrow> string list \<Rightarrow> string \<Rightarrow> string \<Rightarrow> bool" where
  "best_key lib keys e k =
     (\<exists>pre post. keys = pre @ k # post \<and> 0 < ratio lib k e
        \<and> (\<forall>k'\<in>set pre. ratio lib k' e < ratio lib k e)
        \<and> (\<forall>k'\<in>set post. ratio lib k' e \<le> ratio lib k e))"

text \<open>
  \<open>matched lib d thr e k\<close>: the response \<open>d\<close> has a match for \<open>e\<close>, the key \<open>k\<close>: the
  best key, not the empty string, with a ratio above the threshold.
\<close>

definition matched :: "pylib \<Rightarrow> dict \<Rightarrow> real \<Rightarrow> string \<Rightarrow> string \<Rightarrow> bool" where
  "matched lib d thr e k = (best_key lib (map fst d) e k \<and> thr < ratio lib k e \<and> k \<noteq> [])"

text \<open>
  \<open>chosen lib d thr e v\<close>: \<open>v\<close> is what stands under the expected component \<open>e\<close> when
  the response parsed to \<open>d\<close>: the value \<open>d\<close> holds under the match for \<open>e\<close>, and
  the empty string when there is no match.
\<close>

definition chosen :: "pylib \<Rightarrow> dict \<Rightarrow> real \<Rightarrow> string \<Rightarrow> json \<Rightarrow> bool" where
  "chosen lib d thr e v =
     ((\<exists>k. matched lib d thr e k \<and> map_of d k = Some v)
      \<or> (v = JString '''' \<and> (\<forall>k. \<not> matched lib d thr e k)))"

text \<open>The value the loop stores under an expected component, as a function.\<close>

definition pick :: "pylib \<Rightarrow> dict \<Rightarrow> real \<Rightarrow> string \<Rightarrow> json" where
  "pick lib d thr e =
     (case find_best_match lib (map fst d) e of
        (bm, br) \<Rightarrow>
          if truthy bm \<and> br > thr
          then (case map_of d (the bm) of Some v \<Rightarrow> v | None \<Rightarrow> JString '''')
          else JString '''')"

fun is_string :: "json \<Rightarrow> bool" where
  "is_string (JString s) = True"
| "is_string v = False"

text \<open>
  \<open>clears lib word cutoff x\<close>: the possibility \<open>x\<close> passes the three checks of
  \<^verbatim>\<open>get_close_matches\<close> against \<open>word\<close>.
\<close>

definition clears :: "pylib \<Rightarrow> string \<Rightarrow> real \<Rightarrow> string \<Rightarrow> bool" where
  "clears lib word cutoff x =
     (real_quick_ratio x word \<ge> cutoff \<and> quick_ratio x word \<ge> cutoff \<and> ratio lib x word \<ge> cutoff)"


section \<open>Properties of the text position analyser\<close>



















lemma search_literal_first:
  "search_literal p t = Some i \<Longrightarrow> first_occurrence p t i"
proof (induction t arbitrary: i)
  case Nil
  then show ?case by (auto simp: first_occurrence_def occurs_at_def split: if_splits)
next
  case (Cons c cs)
  show ?case
  proof (cases "take (length p) (c # cs) = p")
    case True
    then show ?thesis using Cons.prems by (simp add: first_occurrence_def occurs_at_def)
  next
    case False
    then obtain k where k: "search_literal p cs = Some k" "i = Suc k"
      using Cons.prems by auto
    from Cons.IH [OF k(1)] have f: "first_occurrence p cs k" .
    have "\<not> occurs_at p (c # cs) j" if "j < Suc k" for j
    proof (cases j)
      case 0
      then show ?thesis using False by (simp add: occurs_at_def)
    next
      case (Suc m)
      then show ?thesis using f that by (simp add: first_occurrence_def occurs_at_def)
    qed
    then show ?thesis using f k(2) by (simp add: first_occurrence_def occurs_at_def)
  qed
qed

lemma positions_loop_entry:
  "(p, pos) \<in> set (positions_loop t tw ps) \<Longrightarrow>
     \<exists>i. search_literal p t = Some i
        \<and> pos = classify_relative_word_position (length (findall_words (take i t))) tw"
  by (induction ps) (auto simp: Let_def split: option.splits)

lemma positions_loop_found:
  "map fst (positions_loop t tw ps) = filter (\<lambda>p. search_literal p t \<noteq> None) ps"
  by (induction ps) (auto simp: Let_def split: option.splits)

lemma classify_integer:
  "classify_relative_word_position wp tw =
     (if 3 * wp \<le> tw then ''Beginning'' else if 2 * tw \<le> 3 * wp then ''End'' else ''Middle'')"
proof -
  have a: "real wp \<le> real tw / 3 \<longleftrightarrow> 3 * wp \<le> tw"
  proof -
    have "real wp \<le> real tw / 3 \<longleftrightarrow> real (3 * wp) \<le> real tw" by auto
    then show ?thesis using of_nat_le_iff by blast
  qed
  have b: "real tw / 3 * 2 \<le> real wp \<longleftrightarrow> 2 * tw \<le> 3 * wp"
  proof -
    have "real tw / 3 * 2 \<le> real wp \<longleftrightarrow> real (2 * tw) \<le> real (3 * wp)" by auto
    then show ?thesis using of_nat_le_iff by blast
  qed
  show ?thesis unfolding classify_relative_word_position_def a b by simp
qed

lemma findall_words_dropWhile:
  "findall_words (dropWhile (\<lambda>c. \<not> word_char c) s) = findall_words s"
  by (subst findall_words.simps, subst (2) findall_words.simps) simp

lemma findall_words_no_word:
  assumes "list_all (\<lambda>c. \<not> word_char c) s"
  shows "findall_words s = []"
proof -
  have d: "dropWhile (\<lambda>c. \<not> word_char c) s = []"
    using assms by (simp add: list_all_iff)
  show ?thesis by (subst findall_words.simps) (simp only: d list.case)
qed

lemma findall_words_separator:
  "\<not> word_char c \<Longrightarrow> findall_words (a @ c # b) = findall_words a @ findall_words b"
proof (induction a rule: findall_words.induct)
  case (1 s)
  show ?case
  proof (cases "dropWhile (\<lambda>c. \<not> word_char c) s")
    case Nil
    then have all: "\<forall>x\<in>set s. \<not> word_char x" by (simp add: dropWhile_eq_Nil_conv)
    then have "dropWhile (\<lambda>c. \<not> word_char c) (s @ c # b) = dropWhile (\<lambda>c. \<not> word_char c) b"
      using 1(2) by (simp add: dropWhile_append2)
    then have "findall_words (s @ c # b) = findall_words b"
      by (metis findall_words_dropWhile)
    moreover have "findall_words s = []"
      using all by (simp add: findall_words_no_word list_all_iff)
    ultimately show ?thesis by simp
  next
    case (Cons x r)
    have x: "word_char x"
      using Cons hd_dropWhile [of "\<lambda>c. \<not> word_char c" s] by force
    have d: "dropWhile (\<lambda>c. \<not> word_char c) (s @ c # b) = (x # r) @ c # b"
      using Cons by (metis dropWhile_append1 dropWhile_eq_Nil_conv list.distinct(1))
    have tw: "takeWhile word_char ((x # r) @ c # b) = takeWhile word_char (x # r)"
      using 1(2) by (metis takeWhile_tail takeWhile_append1 takeWhile_eq_all_conv)
    have dw: "dropWhile word_char ((x # r) @ c # b) = dropWhile word_char (x # r) @ c # b"
      using 1(2) by (metis dropWhile_append1 dropWhile_append2 dropWhile.simps(2) dropWhile_eq_Nil_conv append_Nil)
    have s: "findall_words s = takeWhile word_char (x # r) # findall_words (dropWhile word_char (x # r))"
      using Cons by (subst findall_words.simps) simp
    have "findall_words (s @ c # b)
        = takeWhile word_char (x # r) # findall_words (dropWhile word_char (x # r) @ c # b)"
      using d tw dw by (subst findall_words.simps) simp
    also have "findall_words (dropWhile word_char (x # r) @ c # b)
        = findall_words (dropWhile word_char (x # r)) @ findall_words b"
      using 1(1) [OF Cons 1(2)] .
    finally show ?thesis using s by simp
  qed
qed

lemma findall_words_word:
  assumes "list_all word_char n" and "n \<noteq> []"
  shows "findall_words n = [n]"
proof -
  obtain x r where n: "n = x # r" using assms(2) by (cases n) auto
  have dn: "dropWhile (\<lambda>c. \<not> word_char c) n = x # r"
    using assms(1) n by simp
  have tk: "takeWhile word_char (x # r) = n"
    using assms(1) n by (simp add: list_all_iff)
  have dw: "dropWhile word_char (x # r) = []"
    using assms(1) n by (simp add: list_all_iff)
  have e: "findall_words [] = []" by (subst findall_words.simps) simp
  have "findall_words n = takeWhile word_char (x # r) # findall_words (dropWhile word_char (x # r))"
    using dn by (subst findall_words.simps) simp
  then show ?thesis unfolding tk dw e .
qed

lemma findall_words_double_brace:
  assumes "list_all word_char n" and "n \<noteq> []"
  shows "findall_words (pre @ ''{{'' @ n @ ''}}'' @ post)
           = findall_words pre @ [n] @ findall_words post"
proof -
  have nw: "\<not> word_char CHR ''{''" "\<not> word_char CHR ''}''"
    by (simp_all add: word_char_def)
  have e: "findall_words [] = []" by (subst findall_words.simps) simp
  have "findall_words (pre @ ''{{'' @ n @ ''}}'' @ post)
      = findall_words pre @ findall_words (CHR ''{'' # n @ CHR ''}'' # CHR ''}'' # post)"
    using findall_words_separator [OF nw(1), of pre] by simp
  also have "findall_words (CHR ''{'' # n @ CHR ''}'' # CHR ''}'' # post)
      = findall_words (n @ CHR ''}'' # CHR ''}'' # post)"
    using findall_words_separator [OF nw(1), of "[]"] e by simp
  also have "\<dots> = findall_words n @ findall_words (CHR ''}'' # post)"
    using findall_words_separator [OF nw(2), of n] by simp
  also have "findall_words (CHR ''}'' # post) = findall_words post"
    using findall_words_separator [OF nw(2), of "[]"] e by simp
  finally show ?thesis using findall_words_word [OF assms] by simp
qed

text \<open>
  Claim C7. The three sample texts give Middle, Beginning and End for \<^verbatim>\<open>{{x}}\<close>,
  and the bucketing rule is the one stated, with a division that does not truncate:
  it is the same as comparing \<open>3 * wordIndex\<close> with \<open>totalWords\<close> and with
  \<open>2 * totalWords\<close> in the integers (with a truncating division, index 2 of 4 words
  would be End).
\<close>

theorem C7_relative_word_position:
  "calculate_relative_word_positions ''a b c {{x}} d e f'' (detect_placeholder ''a b c {{x}} d e f'')
     = [(''{{x}}'', ''Middle'')]
   \<and> calculate_relative_word_positions ''{{x}} a b c d e f'' (detect_placeholder ''{{x}} a b c d e f'')
     = [(''{{x}}'', ''Beginning'')]
   \<and> calculate_relative_word_positions ''a b c d e f {{x}}'' (detect_placeholder ''a b c d e f {{x}}'')
     = [(''{{x}}'', ''End'')]
   \<and> classify_relative_word_position wordIndex totalWords
     = (if real wordIndex \<le> real totalWords / 3 then ''Beginning''
        else if real wordIndex \<ge> 2 * real totalWords / 3 then ''End''
        else ''Middle'')
   \<and> classify_relative_word_position wordIndex totalWords
     = (if 3 * wordIndex \<le> totalWords then ''Beginning''
        else if 2 * totalWords \<le> 3 * wordIndex then ''End''
        else ''Middle'')
   \<and> classify_relative_word_position 2 4 = ''Middle''"
proof -
  have a: "calculate_relative_word_positions ''a b c {{x}} d e f'' (detect_placeholder ''a b c {{x}} d e f'')
     = [(''{{x}}'', ''Middle'')]"
    by code_simp
  have b: "calculate_relative_word_positions ''{{x}} a b c d e f'' (detect_placeholder ''{{x}} a b c d e f'')
     = [(''{{x}}'', ''Beginning'')]"
    by code_simp
  have c: "calculate_relative_word_positions ''a b c d e f {{x}}'' (detect_placeholder ''a b c d e f {{x}}'')
     = [(''{{x}}'', ''End'')]"
    by code_simp
  have d: "classify_relative_word_position wordIndex totalWords
     = (if real wordIndex \<le> real totalWords / 3 then ''Beginning''
        else if real wordIndex \<ge> 2 * real totalWords / 3 then ''End''
        else ''Middle'')"
    by (simp add: classify_relative_word_position_def)
  have e: "classify_relative_word_position 2 4 = ''Middle''"
    by (simp add: classify_integer)
  show ?thesis using a b c d e classify_integer [of wordIndex totalWords] by simp
qed

text \<open>
  Claim C10. The word counts include the names inside the braces: the sample text has
  seven words, a double-brace placeholder with a name of word characters adds one word
  to the count, and in \<^verbatim>\<open>{{a}} {{b}} {{c}}\<close> the last placeholder is preceded by two
  words. Every reported position is the one computed at the first occurrence of the
  placeholder's text, so two entries for the same text carry the same label.
\<close>

theorem C10_word_counts:
  "findall_words ''a b c {{x}} d e f'' = [''a'', ''b'', ''c'', ''x'', ''d'', ''e'', ''f'']
   \<and> length (findall_words ''a b c {{x}} d e f'') = 7
   \<and> (list_all word_char n \<and> n \<noteq> [] \<longrightarrow>
        length (findall_words (pre @ ''{{'' @ n @ ''}}'' @ post))
          = length (findall_words pre) + 1 + length (findall_words post))
   \<and> calculate_relative_word_positions ''{{a}} {{b}} {{c}}'' (detect_placeholder ''{{a}} {{b}} {{c}}'')
       = [(''{{a}}'', ''Beginning''), (''{{b}}'', ''Beginning''), (''{{c}}'', ''End'')]
   \<and> ((p, pos) \<in> set (calculate_relative_word_positions t ps) \<longrightarrow>
        (\<exists>i. first_occurrence p t i
           \<and> pos = classify_relative_word_position
                     (length (findall_words (take i t))) (length (findall_words t))))
   \<and> ((p, pos) \<in> set (calculate_relative_word_positions t ps)
        \<and> (p, pos') \<in> set (calculate_relative_word_positions t ps) \<longrightarrow> pos = pos')
   \<and> calculate_relative_word_positions ''{{x}} a b c d e f {{x}}''
         (detect_placeholder ''{{x}} a b c d e f {{x}}'')
       = [(''{{x}}'', ''Beginning''), (''{{x}}'', ''Beginning'')]"
proof -
  have a: "findall_words ''a b c {{x}} d e f'' = [''a'', ''b'', ''c'', ''x'', ''d'', ''e'', ''f'']"
    by code_simp
  have b: "list_all word_char n \<and> n \<noteq> [] \<longrightarrow>
        length (findall_words (pre @ ''{{'' @ n @ ''}}'' @ post))
          = length (findall_words pre) + 1 + length (findall_words post)"
    using findall_words_double_brace [of n pre post] by simp
  have c: "calculate_relative_word_positions ''{{a}} {{b}} {{c}}'' (detect_placeholder ''{{a}} {{b}} {{c}}'')
       = [(''{{a}}'', ''Beginning''), (''{{b}}'', ''Beginning''), (''{{c}}'', ''End'')]"
    by code_simp
  have d: "(p, pos) \<in> set (calculate_relative_word_positions t ps) \<longrightarrow>
        (\<exists>i. first_occurrence p t i
           \<and> pos = classify_relative_word_position
                     (length (findall_words (take i t))) (length (findall_words t)))"
    unfolding calculate_relative_word_positions_def Let_def
    using positions_loop_entry search_literal_first by blast
  have e: "(p, pos) \<in> set (calculate_relative_word_positions t ps)
        \<and> (p, pos') \<in> set (calculate_relative_word_positions t ps) \<longrightarrow> pos = pos'"
  proof
    assume h: "(p, pos) \<in> set (calculate_relative_word_positions t ps)
        \<and> (p, pos') \<in> set (calculate_relative_word_positions t ps)"
    define tw where "tw = length (findall_words t)"
    from h have "(p, pos) \<in> set (positions_loop t tw ps)" "(p, pos') \<in> set (positions_loop t tw ps)"
      by (simp_all add: calculate_relative_word_positions_def tw_def)
    from positions_loop_entry [OF this(1)] positions_loop_entry [OF this(2)]
    show "pos = pos'" by auto
  qed
  have f: "calculate_relative_word_positions ''{{x}} a b c d e f {{x}}''
         (detect_placeholder ''{{x}} a b c d e f {{x}}'')
       = [(''{{x}}'', ''Beginning''), (''{{x}}'', ''Beginning'')]"
    by code_simp
  show ?thesis using a b c d e f by simp
qed

theorem C10_word_counts_witness:
  "list_all word_char ''x'' \<and> ''x'' \<noteq> []
   \<and> length (findall_words (''a '' @ ''{{'' @ ''x'' @ ''}}'' @ '' b''))
       = length (findall_words ''a '') + 1 + length (findall_words '' b'')
   \<and> (''{{x}}'', ''Beginning'') \<in> set (calculate_relative_word_positions ''{{x}} a {{x}}'' [''{{x}}'', ''{{x}}''])
   \<and> (\<exists>i. first_occurrence ''{{x}}'' ''{{x}} a {{x}}'' i
          \<and> ''Beginning'' = classify_relative_word_position
                (length (findall_words (take i ''{{x}} a {{x}}''))) (length (findall_words ''{{x}} a {{x}}'')))"
proof -
  have h1: "list_all word_char ''x'' \<and> ''x'' \<noteq> []"
    by (simp add: word_char_def)
  have h2: "(''{{x}}'', ''Beginning'') \<in> set (calculate_relative_word_positions ''{{x}} a {{x}}'' [''{{x}}'', ''{{x}}''])"
    by code_simp
  show ?thesis
    using h1 h2
      C10_word_counts [where n = "''x''" and pre = "''a ''" and post = "'' b''" and p = "''{{x}}''"
        and pos = "''Beginning''" and t = "''{{x}} a {{x}}''" and ps = "[''{{x}}'', ''{{x}}'']"]
    by blast
qed


section \<open>Properties of the response validator\<close>

lemma best_match_loop_cases:
  assumes "best_match_loop lib e keys (bm0, br0) = (bm, br)"
  shows "(bm = bm0 \<and> br = br0 \<and> (\<forall>k\<in>set keys. ratio lib k e \<le> br0))
       \<or> (\<exists>k. bm = Some k \<and> k \<in> set keys \<and> br = ratio lib k e \<and> br0 < br
              \<and> (\<forall>k'\<in>set keys. ratio lib k' e \<le> br))"
  using assms
proof (induction keys arbitrary: bm0 br0)
  case Nil
  then show ?case by simp
next
  case (Cons key keys)
  show ?case
  proof (cases "ratio lib key e > br0")
    case True
    then have "best_match_loop lib e keys (Some key, ratio lib key e) = (bm, br)"
      using Cons.prems by (simp add: Let_def)
    from Cons.IH [OF this] True show ?thesis by (auto intro: less_trans)
  next
    case False
    then have "best_match_loop lib e keys (bm0, br0) = (bm, br)"
      using Cons.prems by (simp add: Let_def)
    from Cons.IH [OF this] False show ?thesis by force
  qed
qed

lemma find_best_match_cases:
  assumes "find_best_match lib keys e = (bm, br)"
  shows "(bm = None \<and> br = 0 \<and> (\<forall>k\<in>set keys. ratio lib k e \<le> 0))
       \<or> (\<exists>k. bm = Some k \<and> k \<in> set keys \<and> br = ratio lib k e \<and> 0 < br
              \<and> (\<forall>k'\<in>set keys. ratio lib k' e \<le> br))"
  using best_match_loop_cases [of lib e keys None 0 bm br] assms
  by (simp add: find_best_match_def)

lemma dict_set_keys:
  "map fst (dict_set d key v) = (if key \<in> set (map fst d) then map fst d else map fst d @ [key])"
  by (induction d key v rule: dict_set.induct) auto

lemma dict_set_values:
  "set (dict_set d key v) \<subseteq> insert (key, v) (set d)"
  by (induction d key v rule: dict_set.induct) auto

lemma dict_set_fresh:
  "key \<notin> set (map fst d) \<Longrightarrow> dict_set d key v = d @ [(key, v)]"
  by (induction d key v rule: dict_set.induct) auto

lemma dict_get_key:
  "k \<in> set (map fst d) \<Longrightarrow> \<exists>v. dict_get d k = Inr v \<and> map_of d k = Some v"
  by (cases "map_of d k") (auto simp: dict_get_def map_of_eq_None_iff)



text \<open>The loop of \<open>find_best_match\<close> keeps the first key with the highest ratio.\<close>

lemma best_match_loop_first:
  assumes "best_match_loop lib e keys (bm0, br0) = (bm, br)"
  shows "(bm = bm0 \<and> br = br0 \<and> (\<forall>k\<in>set keys. ratio lib k e \<le> br0))
       \<or> (\<exists>pre k post. keys = pre @ k # post \<and> bm = Some k \<and> br = ratio lib k e \<and> br0 < br
              \<and> (\<forall>k'\<in>set pre. ratio lib k' e < br) \<and> (\<forall>k'\<in>set post. ratio lib k' e \<le> br))"
  using assms
proof (induction keys arbitrary: bm0 br0)
  case Nil
  then show ?case by simp
next
  case (Cons key keys)
  let ?r = "ratio lib key e"
  show ?case
  proof (cases "?r > br0")
    case True
    then have "best_match_loop lib e keys (Some key, ?r) = (bm, br)"
      using Cons.prems by (simp add: Let_def)
    from Cons.IH [OF this] show ?thesis
    proof
      assume "bm = Some key \<and> br = ?r \<and> (\<forall>k\<in>set keys. ratio lib k e \<le> ?r)"
      then have "key # keys = [] @ key # keys \<and> bm = Some key \<and> br = ratio lib key e \<and> br0 < br
              \<and> (\<forall>k'\<in>set []. ratio lib k' e < br) \<and> (\<forall>k'\<in>set keys. ratio lib k' e \<le> br)"
        using True by simp
      then show ?thesis by blast
    next
      assume "\<exists>pre k post. keys = pre @ k # post \<and> bm = Some k \<and> br = ratio lib k e \<and> ?r < br
              \<and> (\<forall>k'\<in>set pre. ratio lib k' e < br) \<and> (\<forall>k'\<in>set post. ratio lib k' e \<le> br)"
      then obtain pre k post where s: "keys = pre @ k # post" "bm = Some k" "br = ratio lib k e"
        "?r < br" "\<forall>k'\<in>set pre. ratio lib k' e < br" "\<forall>k'\<in>set post. ratio lib k' e \<le> br"
        by blast
      have "key # keys = (key # pre) @ k # post \<and> bm = Some k \<and> br = ratio lib k e \<and> br0 < br
              \<and> (\<forall>k'\<in>set (key # pre). ratio lib k' e < br) \<and> (\<forall>k'\<in>set post. ratio lib k' e \<le> br)"
        using s True by auto
      then show ?thesis by blast
    qed
  next
    case False
    then have "best_match_loop lib e keys (bm0, br0) = (bm, br)"
      using Cons.prems by (simp add: Let_def)
    from Cons.IH [OF this] show ?thesis
    proof
      assume "bm = bm0 \<and> br = br0 \<and> (\<forall>k\<in>set keys. ratio lib k e \<le> br0)"
      then show ?thesis using False by auto
    next
      assume "\<exists>pre k post. keys = pre @ k # post \<and> bm = Some k \<and> br = ratio lib k e \<and> br0 < br
              \<and> (\<forall>k'\<in>set pre. ratio lib k' e < br) \<and> (\<forall>k'\<in>set post. ratio lib k' e \<le> br)"
      then obtain pre k post where s: "keys = pre @ k # post" "bm = Some k" "br = ratio lib k e"
        "br0 < br" "\<forall>k'\<in>set pre. ratio lib k' e < br" "\<forall>k'\<in>set post. ratio lib k' e \<le> br"
        by blast
      have "key # keys = (key # pre) @ k # post \<and> bm = Some k \<and> br = ratio lib k e \<and> br0 < br
              \<and> (\<forall>k'\<in>set (key # pre). ratio lib k' e < br) \<and> (\<forall>k'\<in>set post. ratio lib k' e \<le> br)"
        using s False by auto
      then show ?thesis by blast
    qed
  qed
qed

lemma find_best_match_first:
  assumes "find_best_match lib keys e = (bm, br)"
  shows "(bm = None \<and> br = 0 \<and> (\<forall>k\<in>set keys. ratio lib k e \<le> 0))
       \<or> (\<exists>k. bm = Some k \<and> br = ratio lib k e \<and> best_key lib keys e k)"
proof -
  from best_match_loop_first [of lib e keys None 0 bm br] assms
  have "(bm = None \<and> br = 0 \<and> (\<forall>k\<in>set keys. ratio lib k e \<le> 0))
       \<or> (\<exists>pre k post. keys = pre @ k # post \<and> bm = Some k \<and> br = ratio lib k e \<and> 0 < br
              \<and> (\<forall>k'\<in>set pre. ratio lib k' e < br) \<and> (\<forall>k'\<in>set post. ratio lib k' e \<le> br))"
    by (simp add: find_best_match_def)
  then show ?thesis unfolding best_key_def by blast
qed

lemma best_key_member: "best_key lib keys e k \<Longrightarrow> k \<in> set keys \<and> 0 < ratio lib k e"
  by (auto simp: best_key_def)

lemma best_key_unique:
  assumes "best_key lib keys e k" and "best_key lib keys e k'"
  shows "k = k'"
proof -
  from assms(1) obtain pre post where a: "keys = pre @ k # post"
    "\<forall>x\<in>set pre. ratio lib x e < ratio lib k e" "\<forall>x\<in>set post. ratio lib x e \<le> ratio lib k e"
    unfolding best_key_def by blast
  from assms(2) obtain pre' post' where b: "keys = pre' @ k' # post'"
    "\<forall>x\<in>set pre'. ratio lib x e < ratio lib k' e" "\<forall>x\<in>set post'. ratio lib x e \<le> ratio lib k' e"
    unfolding best_key_def by blast
  have "pre @ k # post = pre' @ k' # post'" using a(1) b(1) by simp
  then obtain us where "(pre = pre' @ us \<and> us @ k # post = k' # post')
                       \<or> (pre @ us = pre' \<and> k # post = us @ k' # post')"
    unfolding append_eq_append_conv2 by blast
  then show ?thesis
  proof
    assume c: "pre = pre' @ us \<and> us @ k # post = k' # post'"
    show ?thesis
    proof (cases us)
      case Nil
      then show ?thesis using c by simp
    next
      case (Cons u us')
      then have "u = k'" "post' = us' @ k # post" using c by simp_all
      then have "k' \<in> set pre" "k \<in> set post'" using c Cons by simp_all
      then have "ratio lib k' e < ratio lib k e" "ratio lib k e \<le> ratio lib k' e"
        using a(2) b(3) by blast+
      then show ?thesis by simp
    qed
  next
    assume c: "pre @ us = pre' \<and> k # post = us @ k' # post'"
    show ?thesis
    proof (cases us)
      case Nil
      then show ?thesis using c by simp
    next
      case (Cons u us')
      then have "u = k" "post = us' @ k' # post'" using c by simp_all
      then have "k \<in> set pre'" "k' \<in> set post" using c Cons by auto
      then have "ratio lib k e < ratio lib k' e" "ratio lib k' e \<le> ratio lib k e"
        using b(2) a(3) by blast+
      then show ?thesis by simp
    qed
  qed
qed

lemma chosen_unique:
  assumes "chosen lib d thr e v" and "chosen lib d thr e v'"
  shows "v = v'"
proof -
  have u: "k = k'" if "matched lib d thr e k" "matched lib d thr e k'" for k k'
    using that best_key_unique unfolding matched_def by blast
  show ?thesis
    using assms u unfolding chosen_def by (metis option.inject)
qed

lemma chosen_source:
  "chosen lib d thr e v \<Longrightarrow> v = JString '''' \<or> (\<exists>k. map_of d k = Some v)"
  unfolding chosen_def by blast

lemma chosen_unmatched:
  assumes "\<forall>k\<in>set (map fst d). ratio lib k e \<le> thr" and "chosen lib d thr e v"
  shows "v = JString ''''"
proof -
  have "\<not> matched lib d thr e k" for k
    using assms(1) best_key_member [of lib "map fst d" e k] unfolding matched_def by force
  then show ?thesis using assms(2) unfolding chosen_def by blast
qed

lemma chosen_matched:
  assumes "matched lib d thr e k" and "chosen lib d thr e v"
  shows "map_of d k = Some v"
proof -
  from assms(1) have "k \<in> set (map fst d)"
    using best_key_member unfolding matched_def by blast
  from dict_get_key [OF this] obtain w where w: "map_of d k = Some w" by blast
  then have "chosen lib d thr e w" using assms(1) unfolding chosen_def by blast
  from chosen_unique [OF this assms(2)] w show ?thesis by simp
qed

lemma pick_chosen: "chosen lib d thr e (pick lib d thr e)"
proof -
  obtain bm br where fb: "find_best_match lib (map fst d) e = (bm, br)"
    by (cases "find_best_match lib (map fst d) e") auto
  from find_best_match_first [OF fb] show ?thesis
  proof
    assume n: "bm = None \<and> br = 0 \<and> (\<forall>k\<in>set (map fst d). ratio lib k e \<le> 0)"
    then have p: "pick lib d thr e = JString ''''" using fb by (simp add: pick_def truthy_def)
    have "\<not> matched lib d thr e k" for k
      using n best_key_member [of lib "map fst d" e k] unfolding matched_def by force
    then show ?thesis unfolding chosen_def p by blast
  next
    assume "\<exists>k. bm = Some k \<and> br = ratio lib k e \<and> best_key lib (map fst d) e k"
    then obtain k where k: "bm = Some k" "br = ratio lib k e" "best_key lib (map fst d) e k"
      by blast
    show ?thesis
    proof (cases "k \<noteq> [] \<and> thr < br")
      case True
      have "k \<in> set (map fst d)" using best_key_member [OF k(3)] by simp
      from dict_get_key [OF this] obtain v where v: "map_of d k = Some v" by blast
      have p: "pick lib d thr e = v" using fb True k(1) v by (simp add: pick_def truthy_def)
      have "matched lib d thr e k" using k True by (simp add: matched_def)
      then show ?thesis unfolding chosen_def p using v by blast
    next
      case False
      then have p: "pick lib d thr e = JString ''''"
        using fb k(1) by (auto simp: pick_def truthy_def)
      have "\<not> matched lib d thr e k'" for k'
      proof
        assume m: "matched lib d thr e k'"
        then have "k' = k" using best_key_unique k(3) unfolding matched_def by blast
        then show False using m False k(2) by (simp add: matched_def)
      qed
      then show ?thesis unfolding chosen_def p by blast
    qed
  qed
qed

lemma clean_loop_step:
  assumes "e \<notin> set (map fst acc)"
  shows "clean_loop lib d thr (e # labels) acc = clean_loop lib d thr labels (acc @ [(e, pick lib d thr e)])"
proof -
  obtain bm br where fb: "find_best_match lib (map fst d) e = (bm, br)"
    by (cases "find_best_match lib (map fst d) e") auto
  show ?thesis
  proof (cases "truthy bm \<and> br > thr")
    case True
    then obtain k where k: "bm = Some k" by (cases bm) (auto simp: truthy_def)
    from find_best_match_cases [OF fb] k have "k \<in> set (map fst d)" by auto
    from dict_get_key [OF this] obtain v where v: "dict_get d k = Inr v" "map_of d k = Some v"
      by blast
    have "pick lib d thr e = v" using fb True k v by (simp add: pick_def)
    then show ?thesis using fb True k v(1) dict_set_fresh [OF assms] by simp
  next
    case False
    then have "pick lib d thr e = JString ''''" using fb by (auto simp: pick_def)
    then show ?thesis using fb False dict_set_fresh [OF assms] by auto
  qed
qed

lemma clean_loop_result:
  assumes "distinct (map fst acc @ labels)"
  shows "clean_loop lib d thr labels acc = Inr (acc @ map (\<lambda>e. (e, pick lib d thr e)) labels)"
  using assms
proof (induction labels arbitrary: acc)
  case Nil
  then show ?case by simp
next
  case (Cons e labels)
  have fresh: "e \<notin> set (map fst acc)" using Cons.prems by auto
  have "distinct (map fst (acc @ [(e, pick lib d thr e)]) @ labels)" using Cons.prems by auto
  from Cons.IH [OF this] clean_loop_step [OF fresh] show ?case by simp
qed

lemma distinct_EXPECTED: "distinct EXPECTED_COMPONENTS"
  by (simp add: EXPECTED_COMPONENTS_def)

lemma clean_components_pick:
  "clean_components lib (JObject d) thr = Inr (map (\<lambda>e. (e, pick lib d thr e)) EXPECTED_COMPONENTS)"
  using clean_loop_result [of "[]" EXPECTED_COMPONENTS lib d thr] distinct_EXPECTED
  by (simp add: clean_components_def)

lemma clean_components_object:
  "\<exists>cleaned. clean_components lib (JObject d) thr = Inr cleaned
      \<and> map fst cleaned = EXPECTED_COMPONENTS
      \<and> (\<forall>(e, v)\<in>set cleaned. chosen lib d thr e v)"
  using pick_chosen by (auto simp: clean_components_pick comp_def)

lemma clean_components_other:
  "(\<And>d. components \<noteq> JObject d) \<Longrightarrow>
     clean_components lib components thr = Inl (no_attribute components ''keys'')"
  by (cases components) (auto simp: clean_components_def)

lemma default_components_keys:
  "map fst default_components = EXPECTED_COMPONENTS"
  by (simp add: default_components_def comp_def)

lemma default_components_values:
  "(e, v) \<in> set default_components \<Longrightarrow> v = JString ''''"
  by (auto simp: default_components_def)

lemma validate_object:
  assumes "json_loads lib (lower response) = Inr (JObject d)"
  shows "\<exists>cleaned. validate_and_clean_response lib response thr = Inr (json_dumps lib (JObject cleaned))
      \<and> map fst cleaned = EXPECTED_COMPONENTS
      \<and> (\<forall>(e, v)\<in>set cleaned. chosen lib d thr e v)"
  using clean_components_object [of lib d thr] assms
  by (auto simp: validate_and_clean_response_def)

lemma validate_decode_error:
  assumes "json_loads lib (lower response) = Inl (JSONDecodeError m)"
  shows "validate_and_clean_response lib response thr = Inr (json_dumps lib (JObject default_components))"
  using assms by (simp add: validate_and_clean_response_def get_default_response_def)

lemma validate_returns:
  assumes "validate_and_clean_response lib response thr = Inr s"
  shows "\<exists>cleaned. s = json_dumps lib (JObject cleaned) \<and> map fst cleaned = EXPECTED_COMPONENTS
           \<and> (\<forall>(e, v)\<in>set cleaned. v = JString '''' \<or>
                 (\<exists>d k. json_loads lib (lower response) = Inr (JObject d) \<and> map_of d k = Some v))"
proof (cases "json_loads lib (lower response)")
  case (Inl e)
  then have "s = json_dumps lib (JObject default_components)"
    using assms by (auto simp: validate_and_clean_response_def get_default_response_def split: if_splits)
  then show ?thesis using default_components_keys default_components_values by blast
next
  case (Inr components)
  show ?thesis
  proof (cases "\<exists>d. components = JObject d")
    case True
    then obtain d where d: "components = JObject d" by blast
    from validate_object [of lib response d thr] Inr d obtain cleaned where
      c: "validate_and_clean_response lib response thr = Inr (json_dumps lib (JObject cleaned))"
         "map fst cleaned = EXPECTED_COMPONENTS" "\<forall>(e, v)\<in>set cleaned. chosen lib d thr e v"
      by auto
    have "\<forall>(e, v)\<in>set cleaned. v = JString '''' \<or>
                 (\<exists>d k. json_loads lib (lower response) = Inr (JObject d) \<and> map_of d k = Some v)"
      using c(3) Inr d chosen_source by fast
    then show ?thesis using c assms by auto
  next
    case False
    then have "clean_components lib components thr = Inl (no_attribute components ''keys'')"
      using clean_components_other by blast
    then show ?thesis using assms Inr
      by (simp add: validate_and_clean_response_def no_attribute_def)
  qed
qed

section \<open>Properties of the retry loop\<close>

lemma rate_limit_fallback_shape:
  "rate_limit_fallback st = (r, st') \<Longrightarrow> calls st' = calls st \<and> (\<exists>e. r = Inl e)"
  by (auto simp: rate_limit_fallback_def do_sleep_def)

lemma on_exception_shape:
  assumes "on_exception lib msg st = (r, st')"
  shows "calls st' = calls st \<and> (r = Inr (get_default_response lib) \<or> (\<exists>e. r = Inl e))"
proof (cases "str_contains ''429'' msg \<or> str_contains ''Rate limit reached'' msg")
  case False
  then show ?thesis using assms by (auto simp: on_exception_def)
next
  case True
  show ?thesis
  proof (cases "wait_field msg")
    case (Inl e)
    then have "on_exception lib msg st = (if caught_by_fallback e then rate_limit_fallback st else (Inl e, st))"
      using True by (simp add: on_exception_def)
    then show ?thesis using assms rate_limit_fallback_shape [of st r st']
      by (cases "caught_by_fallback e") auto
  next
    case (Inr field)
    show ?thesis
    proof (cases "py_float lib field")
      case (Inl e)
      then have "on_exception lib msg st = (if caught_by_fallback e then rate_limit_fallback st else (Inl e, st))"
        using True Inr by (simp add: on_exception_def)
      then show ?thesis using assms rate_limit_fallback_shape [of st r st']
        by (cases "caught_by_fallback e") auto
    next
      case w: (Inr wait_time)
      show ?thesis
      proof (cases "time_sleep lib wait_time")
        case None
        then have "on_exception lib msg st = (Inr (get_default_response lib), do_sleep st wait_time)"
          using True Inr w by (simp add: on_exception_def)
        then show ?thesis using assms by (auto simp: do_sleep_def)
      next
        case (Some e)
        then have "on_exception lib msg st = (if caught_by_fallback e then rate_limit_fallback st else (Inl e, st))"
          using True Inr w by (simp add: on_exception_def)
        then show ?thesis using assms rate_limit_fallback_shape [of st r st']
          by (cases "caught_by_fallback e") auto
      qed
    qed
  qed
qed

text \<open>
  The rate-limit path with a wait field that \<^verbatim>\<open>float\<close> refuses, for every library: the
  pause of 60 is followed by the \<^verbatim>\<open>TypeError\<close> of the call with one argument.
\<close>

lemma on_exception_unparseable_wait:
  assumes "str_contains ''429'' msg \<or> str_contains ''Rate limit reached'' msg"
    and "wait_field msg = Inr field" and "py_float lib field = Inl e" and "is_ValueError e"
  shows "on_exception lib msg st = (Inl missing_arguments, do_sleep st 60)"
  using assms by (simp add: on_exception_def caught_by_fallback_def rate_limit_fallback_def)

lemma on_exception_other:
  assumes "\<not> str_contains ''429'' msg" and "\<not> str_contains ''Rate limit reached'' msg"
  shows "on_exception lib msg st = (Inr (get_default_response lib), st)"
  using assms by (simp add: on_exception_def)

lemma component_detection_shape:
  assumes "component_detection lib prompt client st = (r, st')"
  shows "calls st' = Suc (calls st)
       \<and> (\<forall>s. r = Inr s \<longrightarrow> (\<exists>cleaned. s = json_dumps lib (JObject cleaned)
                                  \<and> map fst cleaned = EXPECTED_COMPONENTS))"
proof (cases "client prompt (calls st)")
  case (Raises msg)
  then have "on_exception lib msg (st\<lparr>calls := Suc (calls st)\<rparr>) = (r, st')"
    using assms by (simp add: component_detection_def Let_def)
  from on_exception_shape [OF this] show ?thesis
    using default_components_keys by (auto simp: get_default_response_def)
next
  case (Content response)
  show ?thesis
  proof (cases "validate_and_clean_response lib response (7 / 10)")
    case (Inl e)
    then have "on_exception lib (str_exn e) (st\<lparr>calls := Suc (calls st)\<rparr>) = (r, st')"
      using assms Content by (simp add: component_detection_def Let_def)
    from on_exception_shape [OF this] show ?thesis
      using default_components_keys by (auto simp: get_default_response_def)
  next
    case (Inr s)
    then have "r = Inr s" "st' = st\<lparr>calls := Suc (calls st)\<rparr>"
      using assms Content by (simp_all add: component_detection_def Let_def)
    then show ?thesis using validate_returns [OF Inr] by auto
  qed
qed

text \<open>One round of the loop.\<close>

lemma retry_loop_done:
  "\<not> retries < n \<Longrightarrow>
     retry_loop lib p c n dr retries st = (json_loads lib (get_default_response lib), st)"
  by (subst retry_loop.simps) simp

lemma retry_loop_raise:
  "retries < n \<Longrightarrow> component_detection lib p c st = (Inl e, st') \<Longrightarrow>
     retry_loop lib p c n dr retries st = retry_loop lib p c n dr (retries + 1) st'"
  by (subst retry_loop.simps) simp

lemma retry_loop_default:
  "retries < n \<Longrightarrow> component_detection lib p c st = (Inr dr, st') \<Longrightarrow>
     retry_loop lib p c n dr retries st = retry_loop lib p c n dr (retries + 1) st'"
  by (subst retry_loop.simps) (simp split: sum.splits)

lemma retry_loop_return:
  "retries < n \<Longrightarrow> component_detection lib p c st = (Inr s, st') \<Longrightarrow> s \<noteq> dr \<Longrightarrow>
     json_loads lib s = Inr (JObject d) \<Longrightarrow>
     retry_loop lib p c n dr retries st = (Inr (JObject d), st')"
  by (subst retry_loop.simps) simp

lemma retry_loop_step:
  assumes "retries < n" and "component_detection lib p c st = (r, st')"
  shows "retry_loop lib p c n dr retries st = retry_loop lib p c n dr (retries + 1) st'
       \<or> (\<exists>s d. r = Inr s \<and> s \<noteq> dr \<and> json_loads lib s = Inr (JObject d)
             \<and> retry_loop lib p c n dr retries st = (Inr (JObject d), st'))"
  using assms
  by (subst retry_loop.simps, subst (2) retry_loop.simps)
     (auto split: sum.splits json.splits)

lemma retry_loop_total:
  assumes R: "json_loads lib (get_default_response lib) = Inr (JObject default_components)"
  shows "\<exists>m st'. retry_loop lib p c n dr retries st = (Inr m, st')
           \<and> int (calls st') \<le> int (calls st) + max 0 (n - retries)
           \<and> (m = JObject default_components
               \<or> (\<exists>s d cleaned. m = JObject d \<and> s \<noteq> dr \<and> json_loads lib s = Inr m
                     \<and> s = json_dumps lib (JObject cleaned) \<and> map fst cleaned = EXPECTED_COMPONENTS))"
proof (induction "nat (n - retries)" arbitrary: retries st)
  case 0
  then have "\<not> retries < n" by simp
  from retry_loop_done [OF this] R show ?case by simp
next
  case (Suc k)
  then have lt: "retries < n" and k: "k = nat (n - (retries + 1))" by simp_all
  obtain r st1 where cd: "component_detection lib p c st = (r, st1)"
    by (cases "component_detection lib p c st") auto
  from component_detection_shape [OF cd]
  have c1: "calls st1 = Suc (calls st)"
    and sh: "\<forall>s. r = Inr s \<longrightarrow> (\<exists>cleaned. s = json_dumps lib (JObject cleaned)
                                  \<and> map fst cleaned = EXPECTED_COMPONENTS)" by simp_all
  from retry_loop_step [OF lt cd, of dr] show ?case
  proof
    assume e: "retry_loop lib p c n dr retries st = retry_loop lib p c n dr (retries + 1) st1"
    from Suc.hyps(1) [OF k, of st1] obtain m st' where
      "retry_loop lib p c n dr (retries + 1) st1 = (Inr m, st')"
      "int (calls st') \<le> int (calls st1) + max 0 (n - (retries + 1))"
      "m = JObject default_components
               \<or> (\<exists>s d cleaned. m = JObject d \<and> s \<noteq> dr \<and> json_loads lib s = Inr m
                     \<and> s = json_dumps lib (JObject cleaned) \<and> map fst cleaned = EXPECTED_COMPONENTS)"
      by blast
    then show ?thesis using e c1 lt by auto
  next
    assume "\<exists>s d. r = Inr s \<and> s \<noteq> dr \<and> json_loads lib s = Inr (JObject d)
             \<and> retry_loop lib p c n dr retries st = (Inr (JObject d), st1)"
    then obtain s d where s: "r = Inr s" "s \<noteq> dr" "json_loads lib s = Inr (JObject d)"
      "retry_loop lib p c n dr retries st = (Inr (JObject d), st1)" by blast
    from sh s(1) obtain cleaned where "s = json_dumps lib (JObject cleaned)"
      "map fst cleaned = EXPECTED_COMPONENTS" by blast
    then show ?thesis using s c1 lt by auto
  qed
qed


lemma retry_loop_all_raise:
  assumes R: "json_loads lib (get_default_response lib) = Inr (JObject default_components)"
    and A: "\<And>k. \<exists>msg. c p k = Raises msg"
  shows "fst (retry_loop lib p c n (get_default_response lib) retries st) = Inr (JObject default_components)"
proof (induction "nat (n - retries)" arbitrary: retries st)
  case 0
  then have "\<not> retries < n" by simp
  from retry_loop_done [OF this] R show ?case by simp
next
  case (Suc k)
  then have lt: "retries < n" and k: "k = nat (n - (retries + 1))" by simp_all
  obtain msg where msg: "c p (calls st) = Raises msg" using A by blast
  obtain r st1 where oe: "on_exception lib msg (st\<lparr>calls := Suc (calls st)\<rparr>) = (r, st1)"
    by (cases "on_exception lib msg (st\<lparr>calls := Suc (calls st)\<rparr>)") auto
  then have cd: "component_detection lib p c st = (r, st1)"
    using msg by (simp add: component_detection_def Let_def)
  from on_exception_shape [OF oe] have "r = Inr (get_default_response lib) \<or> (\<exists>e. r = Inl e)"
    by simp
  then have "retry_loop lib p c n (get_default_response lib) retries st
           = retry_loop lib p c n (get_default_response lib) (retries + 1) st1"
    using retry_loop_raise [OF lt] retry_loop_default [OF lt] cd by blast
  then show ?case using Suc.hyps(1) [OF k, of st1] by simp
qed

lemma component_detection_unparseable:
  assumes "c p (calls st) = Content r" and "json_loads lib (lower r) = Inl (JSONDecodeError m)"
  shows "component_detection lib p c st = (Inr (get_default_response lib), st\<lparr>calls := Suc (calls st)\<rparr>)"
  using assms validate_decode_error [OF assms(2), of "7 / 10"]
  by (simp add: component_detection_def Let_def get_default_response_def)

lemma retry_loop_unparseable:
  assumes R: "json_loads lib (get_default_response lib) = Inr (JObject default_components)"
    and A: "\<forall>k. calls st \<le> k \<and> int k < int (calls st) + (n - retries) \<longrightarrow>
              (\<exists>r m. c p k = Content r \<and> json_loads lib (lower r) = Inl (JSONDecodeError m))"
  shows "retry_loop lib p c n (get_default_response lib) retries st
           = (Inr (JObject default_components), st\<lparr>calls := calls st + nat (n - retries)\<rparr>)"
  using A
proof (induction "nat (n - retries)" arbitrary: retries st)
  case 0
  then have "\<not> retries < n" and "nat (n - retries) = 0" by simp_all
  then show ?case using retry_loop_done [of retries n] R by simp
next
  case (Suc k)
  then have lt: "retries < n" and k: "k = nat (n - (retries + 1))" by simp_all
  from Suc.prems lt obtain r m where r: "c p (calls st) = Content r"
    "json_loads lib (lower r) = Inl (JSONDecodeError m)" by force
  let ?st1 = "st\<lparr>calls := Suc (calls st)\<rparr>"
  from component_detection_unparseable [of c p st r lib m, OF r]
  have "retry_loop lib p c n (get_default_response lib) retries st
      = retry_loop lib p c n (get_default_response lib) (retries + 1) ?st1"
    using retry_loop_default [OF lt] by blast
  moreover have "\<forall>j. calls ?st1 \<le> j \<and> int j < int (calls ?st1) + (n - (retries + 1)) \<longrightarrow>
              (\<exists>r m. c p j = Content r \<and> json_loads lib (lower r) = Inl (JSONDecodeError m))"
    using Suc.prems by auto
  from Suc.hyps(1) [OF k this]
  have "retry_loop lib p c n (get_default_response lib) (retries + 1) ?st1
      = (Inr (JObject default_components), ?st1\<lparr>calls := calls ?st1 + nat (n - (retries + 1))\<rparr>)" .
  moreover have "Suc (calls st) + nat (n - (retries + 1)) = calls st + nat (n - retries)"
    using lt by simp
  ultimately show ?case by simp
qed

lemma retry_loop_result:
  "\<exists>st'. int (calls st') \<le> int (calls st) + max 0 (n - retries)
      \<and> (retry_loop lib p c n dr retries st = (json_loads lib (get_default_response lib), st')
          \<or> (\<exists>s d cleaned. retry_loop lib p c n dr retries st = (Inr (JObject d), st')
                \<and> s \<noteq> dr \<and> json_loads lib s = Inr (JObject d)
                \<and> s = json_dumps lib (JObject cleaned) \<and> map fst cleaned = EXPECTED_COMPONENTS))"
proof (induction "nat (n - retries)" arbitrary: retries st)
  case 0
  then have "\<not> retries < n" by simp
  from retry_loop_done [OF this, of lib p c dr st]
  have "int (calls st) \<le> int (calls st) + max 0 (n - retries)
      \<and> retry_loop lib p c n dr retries st = (json_loads lib (get_default_response lib), st)"
    by simp
  then show ?case by blast
next
  case (Suc k)
  then have lt: "retries < n" and k: "k = nat (n - (retries + 1))" by simp_all
  obtain r st1 where cd: "component_detection lib p c st = (r, st1)"
    by (cases "component_detection lib p c st") auto
  from component_detection_shape [OF cd]
  have c1: "calls st1 = Suc (calls st)"
    and sh: "\<forall>s. r = Inr s \<longrightarrow> (\<exists>cleaned. s = json_dumps lib (JObject cleaned)
                                  \<and> map fst cleaned = EXPECTED_COMPONENTS)" by simp_all
  from retry_loop_step [OF lt cd, of dr] show ?case
  proof
    assume e: "retry_loop lib p c n dr retries st = retry_loop lib p c n dr (retries + 1) st1"
    from Suc.hyps(1) [OF k, of st1] obtain st' where
      b: "int (calls st') \<le> int (calls st1) + max 0 (n - (retries + 1))"
      and d: "retry_loop lib p c n dr (retries + 1) st1 = (json_loads lib (get_default_response lib), st')
          \<or> (\<exists>s d cleaned. retry_loop lib p c n dr (retries + 1) st1 = (Inr (JObject d), st')
                \<and> s \<noteq> dr \<and> json_loads lib s = Inr (JObject d)
                \<and> s = json_dumps lib (JObject cleaned) \<and> map fst cleaned = EXPECTED_COMPONENTS)"
      by blast
    have "int (calls st') \<le> int (calls st) + max 0 (n - retries)"
      using b c1 lt by simp
    then show ?thesis using d unfolding e by blast
  next
    assume "\<exists>s d. r = Inr s \<and> s \<noteq> dr \<and> json_loads lib s = Inr (JObject d)
             \<and> retry_loop lib p c n dr retries st = (Inr (JObject d), st1)"
    then obtain s d where s: "r = Inr s" "s \<noteq> dr" "json_loads lib s = Inr (JObject d)"
      "retry_loop lib p c n dr retries st = (Inr (JObject d), st1)" by blast
    from sh s(1) obtain cleaned where cl: "s = json_dumps lib (JObject cleaned)"
      "map fst cleaned = EXPECTED_COMPONENTS" by blast
    have "int (calls st1) \<le> int (calls st) + max 0 (n - retries)"
      using c1 lt by simp
    then show ?thesis using s cl by blast
  qed
qed

lemma validate_strings:
  assumes l: "json_loads lib (lower response) = Inr (JObject d)"
    and s: "\<forall>(k, v)\<in>set d. is_string v"
  shows "\<exists>cleaned. validate_and_clean_response lib response thr = Inr (json_dumps lib (JObject cleaned))
      \<and> map fst cleaned = EXPECTED_COMPONENTS \<and> (\<forall>(e, v)\<in>set cleaned. is_string v)"
proof -
  from validate_object [OF l, of thr] obtain cleaned where
    c: "validate_and_clean_response lib response thr = Inr (json_dumps lib (JObject cleaned))"
       "map fst cleaned = EXPECTED_COMPONENTS" "\<forall>(e, v)\<in>set cleaned. chosen lib d thr e v"
    by blast
  have "is_string v" if "(e, v) \<in> set cleaned" for e v
  proof -
    from c(3) that have "v = JString '''' \<or> (\<exists>k. map_of d k = Some v)"
      using chosen_source by blast
    then show ?thesis using s by (auto dest: map_of_SomeD)
  qed
  then show ?thesis using c by blast
qed

lemma map_of_rebuild:
  "distinct (map fst d) \<Longrightarrow> map (\<lambda>k. (k, the (map_of d k))) (map fst d) = d"
proof (induction d)
  case Nil
  then show ?case by simp
next
  case (Cons kv d)
  obtain k v where kv: "kv = (k, v)" by (cases kv) auto
  have fresh: "k \<notin> set (map fst d)" and dist: "distinct (map fst d)"
    using Cons.prems kv by simp_all
  let ?f = "\<lambda>k'. (k', the (map_of (kv # d) k'))"
  let ?g = "\<lambda>k'. (k', the (map_of d k'))"
  have eq: "map ?f (map fst d) = map ?g (map fst d)"
  proof (rule map_cong [OF refl])
    fix k' assume "k' \<in> set (map fst d)"
    then have "k' \<noteq> k" using fresh by auto
    then show "?f k' = ?g k'" using kv by simp
  qed
  have "map ?f (map fst (kv # d)) = ?f k # map ?f (map fst d)"
    using kv by simp
  also have "?f k = kv" using kv by simp
  also have "map ?f (map fst d) = map ?g (map fst d)" by (rule eq)
  also have "map ?g (map fst d) = d" by (rule Cons.IH [OF dist])
  finally show ?case .
qed

lemma EXPECTED_nonempty: "e \<in> set EXPECTED_COMPONENTS \<Longrightarrow> e \<noteq> []"
  by (auto simp: EXPECTED_COMPONENTS_def)

lemma pick_exact_key:
  assumes keys: "map fst comps = EXPECTED_COMPONENTS"
    and rat: "\<forall>e\<in>set EXPECTED_COMPONENTS. \<forall>k\<in>set EXPECTED_COMPONENTS.
                ratio lib e e = 1 \<and> (k \<noteq> e \<longrightarrow> ratio lib k e < 1)"
    and thr: "thr < 1"
    and e: "e \<in> set EXPECTED_COMPONENTS"
  shows "pick lib comps thr e = the (map_of comps e)"
proof -
  obtain bm br where fb: "find_best_match lib (map fst comps) e = (bm, br)"
    by (cases "find_best_match lib (map fst comps) e") auto
  have ee: "ratio lib e e = 1" using rat e by blast
  from find_best_match_cases [OF fb] have "bm = Some e \<and> br = 1"
  proof
    assume "bm = None \<and> br = 0 \<and> (\<forall>k\<in>set (map fst comps). ratio lib k e \<le> 0)"
    then have "ratio lib e e \<le> 0" using keys e by simp
    then show ?thesis using ee by simp
  next
    assume "\<exists>k. bm = Some k \<and> k \<in> set (map fst comps) \<and> br = ratio lib k e \<and> 0 < br
              \<and> (\<forall>k'\<in>set (map fst comps). ratio lib k' e \<le> br)"
    then obtain k where k: "bm = Some k" "k \<in> set EXPECTED_COMPONENTS" "br = ratio lib k e"
      "\<forall>k'\<in>set EXPECTED_COMPONENTS. ratio lib k' e \<le> br" using keys by auto
    from k(4) e ee have "1 \<le> ratio lib k e" unfolding k(3) by force
    then have "k = e" using rat e k(2) by force
    then show ?thesis using k ee by simp
  qed
  moreover have "e \<in> set (map fst comps)" using keys e by simp
  then obtain v where "map_of comps e = Some v" using dict_get_key by blast
  ultimately show ?thesis
    using fb thr EXPECTED_nonempty [OF e] by (simp add: pick_def truthy_def)
qed

lemma clean_components_canonical:
  assumes keys: "map fst comps = EXPECTED_COMPONENTS"
    and rat: "\<forall>e\<in>set EXPECTED_COMPONENTS. \<forall>k\<in>set EXPECTED_COMPONENTS.
                ratio lib e e = 1 \<and> (k \<noteq> e \<longrightarrow> ratio lib k e < 1)"
    and thr: "thr < 1"
  shows "clean_components lib (JObject comps) thr = Inr comps"
proof -
  have "map (\<lambda>e. (e, pick lib comps thr e)) EXPECTED_COMPONENTS
      = map (\<lambda>e. (e, the (map_of comps e))) EXPECTED_COMPONENTS"
    using pick_exact_key [OF keys rat thr] by simp
  also have "\<dots> = comps"
    using map_of_rebuild [of comps] distinct_EXPECTED keys by simp
  finally show ?thesis by (simp add: clean_components_pick)
qed

lemma validate_cleaned:
  assumes "json_loads lib (lower r) = Inr (JObject comps)"
    and "clean_components lib (JObject comps) thr = Inr cleaned"
  shows "validate_and_clean_response lib r thr = Inr (json_dumps lib (JObject cleaned))"
  using assms by (simp add: validate_and_clean_response_def)

lemma detect_second_attempt:
  assumes c0: "client prompt 0 = Raises msg" and c1: "client prompt 1 = Content r"
    and l: "json_loads lib (lower r) = Inr (JObject comps)"
    and cl: "clean_components lib (JObject comps) (7 / 10) = Inr cleaned"
    and rt: "json_loads lib (json_dumps lib (JObject cleaned)) = Inr (JObject cleaned)"
    and nd: "json_dumps lib (JObject cleaned) \<noteq> get_default_response lib"
    and n: "2 \<le> max_retries"
  shows "\<exists>st. detect_component_with_retry lib prompt client max_retries = (Inr (JObject cleaned), st)
           \<and> calls st = 2"
proof -
  let ?dr = "get_default_response lib"
  obtain r1 st1 where oe: "on_exception lib msg (initial_state\<lparr>calls := Suc (calls initial_state)\<rparr>) = (r1, st1)"
    by (cases "on_exception lib msg (initial_state\<lparr>calls := Suc (calls initial_state)\<rparr>)") auto
  have cd1: "component_detection lib prompt client initial_state = (r1, st1)"
    using c0 oe by (simp add: component_detection_def Let_def initial_state_def)
  from on_exception_shape [OF oe]
  have s1: "calls st1 = 1" and r1: "r1 = Inr ?dr \<or> (\<exists>e. r1 = Inl e)"
    by (simp_all add: initial_state_def)
  have lt0: "(0::int) < max_retries" and lt1: "(0::int) + 1 < max_retries" using n by simp_all
  have step1: "retry_loop lib prompt client max_retries ?dr 0 initial_state
             = retry_loop lib prompt client max_retries ?dr (0 + 1) st1"
    using r1 retry_loop_raise [OF lt0] retry_loop_default [OF lt0] cd1 by blast
  have cd2: "component_detection lib prompt client st1
           = (Inr (json_dumps lib (JObject cleaned)), st1\<lparr>calls := Suc (calls st1)\<rparr>)"
    using c1 s1 validate_cleaned [OF l cl] by (simp add: component_detection_def Let_def)
  from retry_loop_return [OF lt1 cd2 nd rt] step1
  have "detect_component_with_retry lib prompt client max_retries
      = (Inr (JObject cleaned), st1\<lparr>calls := Suc (calls st1)\<rparr>)"
    by (simp add: detect_component_with_retry_def)
  then show ?thesis using s1 by simp
qed

section \<open>The claims about component identification\<close>

text \<open>
  Claim C1, as stated, at the response \<^verbatim>\<open>[]\<close>: the text parses, to a list, and
  \<open>validate_and_clean_response\<close> raises an \<^verbatim>\<open>AttributeError\<close> instead of returning a map.
\<close>

theorem C1_counterexample:
  "loads_fragment ''[]'' = Some (Inr (JArray []))
   \<and> validate_and_clean_response reference_lib ''[]'' (7 / 10) = Inl (no_attribute (JArray []) ''keys'')"
  by code_simp

text \<open>
  Claim C1, amended. When the lower-cased response parses to an object,
  \<open>validate_and_clean_response\<close> returns the serialisation of a map whose keys are exactly
  the eight expected components, in their order, and under each of them stands the
  chosen value. The chosen value is determined: where the response has a match (the
  first key with the highest ratio, when that ratio exceeds the threshold and the key is
  not empty) it is the value the response holds under that key, and where no key's
  ratio exceeds the threshold it is the empty string. When the lower-cased response is
  rejected with a \<^verbatim>\<open>JSONDecodeError\<close>, the result is the serialisation of the default map,
  which has the same eight keys and the empty string everywhere.
\<close>

theorem C1_validate_keys:
  "(json_loads lib (lower response) = Inr (JObject d) \<longrightarrow>
      (\<exists>cleaned. validate_and_clean_response lib response thr = Inr (json_dumps lib (JObject cleaned))
         \<and> map fst cleaned = EXPECTED_COMPONENTS
         \<and> (\<forall>(e, v)\<in>set cleaned. chosen lib d thr e v)))
   \<and> (chosen lib d thr e v \<and> chosen lib d thr e v' \<longrightarrow> v = v')
   \<and> (chosen lib d thr e v \<and> matched lib d thr e k \<longrightarrow> map_of d k = Some v)
   \<and> (chosen lib d thr e v \<and> (\<forall>k\<in>set (map fst d). ratio lib k e \<le> thr) \<longrightarrow> v = JString '''')
   \<and> (json_loads lib (lower response) = Inl (JSONDecodeError m) \<longrightarrow>
        validate_and_clean_response lib response thr = Inr (json_dumps lib (JObject default_components)))
   \<and> map fst default_components = EXPECTED_COMPONENTS
   \<and> (\<forall>(e, v)\<in>set default_components. v = JString '''')
   \<and> length EXPECTED_COMPONENTS = 8 \<and> distinct EXPECTED_COMPONENTS"
proof -
  have a: "json_loads lib (lower response) = Inr (JObject d) \<longrightarrow>
      (\<exists>cleaned. validate_and_clean_response lib response thr = Inr (json_dumps lib (JObject cleaned))
         \<and> map fst cleaned = EXPECTED_COMPONENTS
         \<and> (\<forall>(e, v)\<in>set cleaned. chosen lib d thr e v))"
    using validate_object [of lib response d thr] by blast
  have b: "chosen lib d thr e v \<and> chosen lib d thr e v' \<longrightarrow> v = v'"
    using chosen_unique by blast
  have c: "chosen lib d thr e v \<and> matched lib d thr e k \<longrightarrow> map_of d k = Some v"
    using chosen_matched by blast
  have d: "chosen lib d thr e v \<and> (\<forall>k\<in>set (map fst d). ratio lib k e \<le> thr) \<longrightarrow> v = JString ''''"
    using chosen_unmatched by blast
  have e: "json_loads lib (lower response) = Inl (JSONDecodeError m) \<longrightarrow>
        validate_and_clean_response lib response thr = Inr (json_dumps lib (JObject default_components))"
    using validate_decode_error [of lib response m thr] by blast
  have f: "\<forall>(e, v)\<in>set default_components. v = JString ''''"
    using default_components_values by blast
  have g: "length EXPECTED_COMPONENTS = 8" by (simp add: EXPECTED_COMPONENTS_def)
  show ?thesis
    by (intro conjI) (rule a b c d e default_components_keys f g distinct_EXPECTED)+
qed

theorem C1_validate_keys_witness:
  "json_loads reference_lib (lower response_directive) = Inr (JObject parsed_directive)
   \<and> (\<exists>cleaned. validate_and_clean_response reference_lib response_directive (7 / 10)
                   = Inr (json_dumps reference_lib (JObject cleaned))
         \<and> map fst cleaned = EXPECTED_COMPONENTS)
   \<and> validate_and_clean_response reference_lib response_directive (7 / 10)
       = Inr (json_dumps reference_lib (JObject
           [(''profile/role'', JString ''''), (''directive'', JString ''do x''),
            (''workflows'', JString ''''), (''context'', JString ''''), (''examples'', JString ''''),
            (''output format/style'', JString ''''), (''constraints'', JString ''''),
            (''others'', JString '''')]))
   \<and> chosen reference_lib parsed_directive (7 / 10) ''directive'' (JString ''do x'')
   \<and> matched reference_lib parsed_directive (7 / 10) ''directive'' ''directive''
   \<and> map_of parsed_directive ''directive'' = Some (JString ''do x'')
   \<and> chosen reference_lib parsed_directive (7 / 10) ''workflows'' (JString '''')
   \<and> list_all (\<lambda>k. ratio reference_lib k ''workflows'' \<le> 7 / 10) (map fst parsed_directive)
   \<and> json_loads reference_lib (lower response_prose)
     = Inl (JSONDecodeError ''Expecting value: line 1 column 1 (char 0)'')
   \<and> validate_and_clean_response reference_lib response_prose (7 / 10)
     = Inr (json_dumps reference_lib (JObject default_components))"
proof -
  have h1: "json_loads reference_lib (lower response_directive) = Inr (JObject parsed_directive)"
    by code_simp
  have h2: "json_loads reference_lib (lower response_prose)
     = Inl (JSONDecodeError ''Expecting value: line 1 column 1 (char 0)'')"
    by code_simp
  have h3: "validate_and_clean_response reference_lib response_directive (7 / 10)
       = Inr (json_dumps reference_lib (JObject
           [(''profile/role'', JString ''''), (''directive'', JString ''do x''),
            (''workflows'', JString ''''), (''context'', JString ''''), (''examples'', JString ''''),
            (''output format/style'', JString ''''), (''constraints'', JString ''''),
            (''others'', JString '''')]))"
    by code_simp
  have p1: "pick reference_lib parsed_directive (7 / 10) ''directive'' = JString ''do x''"
    by code_simp
  have p2: "pick reference_lib parsed_directive (7 / 10) ''workflows'' = JString ''''"
    by code_simp
  have h4: "chosen reference_lib parsed_directive (7 / 10) ''directive'' (JString ''do x'')"
    using pick_chosen [of reference_lib parsed_directive "7 / 10" "''directive''"] p1 by simp
  have h5: "chosen reference_lib parsed_directive (7 / 10) ''workflows'' (JString '''')"
    using pick_chosen [of reference_lib parsed_directive "7 / 10" "''workflows''"] p2 by simp
  have r: "0 < ratio reference_lib ''directive'' ''directive''
           \<and> ratio reference_lib ''extra'' ''directive'' \<le> ratio reference_lib ''directive'' ''directive''
           \<and> 7 / 10 < ratio reference_lib ''directive'' ''directive''"
    by code_simp
  have "map fst parsed_directive = [] @ ''directive'' # [''extra'']"
    by (simp add: parsed_directive_def)
  then have "best_key reference_lib (map fst parsed_directive) ''directive'' ''directive''"
    unfolding best_key_def using r by (intro exI [of _ "[]"] exI [of _ "[''extra'']"]) simp
  then have h6: "matched reference_lib parsed_directive (7 / 10) ''directive'' ''directive''"
    using r by (simp add: matched_def)
  have h7: "list_all (\<lambda>k. ratio reference_lib k ''workflows'' \<le> 7 / 10) (map fst parsed_directive)"
    by code_simp
  note object = C1_validate_keys [where lib = reference_lib and response = response_directive
      and d = parsed_directive and thr = "7 / 10" and e = "''directive''" and v = "JString ''do x''"
      and v' = "JString ''do x''" and k = "''directive''"
      and m = "''Expecting value: line 1 column 1 (char 0)''"]
  note prose = C1_validate_keys [where lib = reference_lib and response = response_prose
      and d = parsed_directive and thr = "7 / 10" and e = "''directive''" and v = "JString ''do x''"
      and v' = "JString ''do x''" and k = "''directive''"
      and m = "''Expecting value: line 1 column 1 (char 0)''"]
  from mp [OF object [THEN conjunct1] h1]
  have c1: "\<exists>cleaned. validate_and_clean_response reference_lib response_directive (7 / 10)
                   = Inr (json_dumps reference_lib (JObject cleaned))
         \<and> map fst cleaned = EXPECTED_COMPONENTS"
    by blast
  have c3: "map_of parsed_directive ''directive'' = Some (JString ''do x'')"
    by (rule mp [OF object [THEN conjunct2, THEN conjunct2, THEN conjunct1] conjI [OF h4 h6]])
  have c5: "validate_and_clean_response reference_lib response_prose (7 / 10)
     = Inr (json_dumps reference_lib (JObject default_components))"
    by (rule mp [OF prose [THEN conjunct2, THEN conjunct2, THEN conjunct2, THEN conjunct2, THEN conjunct1] h2])
  show ?thesis
    by (intro conjI) (rule h1 c1 h3 h4 h6 c3 h5 h7 h2 c5)+
qed

text \<open>
  Claim C2. Given that \<^verbatim>\<open>json.loads\<close> reads the default response back as the default
  map, \<open>detect_component_with_retry\<close> returns a value, whatever the capability does
  on each call and whatever the other library functions return or raise. It makes
  at most \<open>max_retries\<close> calls. The value is the default map, or a map parsed from a
  response other than the default response, which serialises a map with the eight
  keys. When every call of the capability raises, the value is the default map.
\<close>

theorem C2_never_raises:
  assumes "json_loads lib (get_default_response lib) = Inr (JObject default_components)"
  shows "\<exists>m st. detect_component_with_retry lib prompt client max_retries = (Inr m, st)
           \<and> int (calls st) \<le> max 0 max_retries
           \<and> (m = JObject default_components
               \<or> (\<exists>s d cleaned. m = JObject d \<and> s \<noteq> get_default_response lib
                     \<and> json_loads lib s = Inr m \<and> s = json_dumps lib (JObject cleaned)
                     \<and> map fst cleaned = EXPECTED_COMPONENTS))
           \<and> ((\<forall>k. \<exists>msg. client prompt k = Raises msg) \<longrightarrow> m = JObject default_components)"
proof -
  let ?dr = "get_default_response lib"
  from retry_loop_total [OF assms, of prompt client max_retries ?dr 0 initial_state]
  obtain m st where r: "retry_loop lib prompt client max_retries ?dr 0 initial_state = (Inr m, st)"
    "int (calls st) \<le> int (calls initial_state) + max 0 (max_retries - 0)"
    "m = JObject default_components
       \<or> (\<exists>s d cleaned. m = JObject d \<and> s \<noteq> ?dr \<and> json_loads lib s = Inr m
             \<and> s = json_dumps lib (JObject cleaned) \<and> map fst cleaned = EXPECTED_COMPONENTS)"
    by blast
  have "m = JObject default_components" if "\<forall>k. \<exists>msg. client prompt k = Raises msg"
    using retry_loop_all_raise [OF assms, of client prompt max_retries 0 initial_state] that r(1)
    by simp
  then show ?thesis
    using r by (simp add: detect_component_with_retry_def initial_state_def)
qed

theorem C2_never_raises_witness:
  "json_loads reference_lib (get_default_response reference_lib) = Inr (JObject default_components)
   \<and> (\<forall>k. \<exists>msg. always_failing ''Summarise the text.'' k = Raises msg)
   \<and> (\<exists>m st. detect_component_with_retry reference_lib ''Summarise the text.'' always_failing 3 = (Inr m, st)
         \<and> m = JObject default_components)"
proof -
  have r: "json_loads reference_lib (get_default_response reference_lib) = Inr (JObject default_components)"
    by code_simp
  have a: "\<forall>k. \<exists>msg. always_failing ''Summarise the text.'' k = Raises msg"
    by (simp add: always_failing_def)
  show ?thesis
    using r a C2_never_raises [OF r, of "''Summarise the text.''" always_failing 3]
    by blast
qed

text \<open>
  Claim C3. Given that \<^verbatim>\<open>json.loads\<close> reads the default response back as the default
  map: when on each of the first \<open>max_retries\<close> calls the capability returns a text
  whose lower-cased form \<^verbatim>\<open>json.loads\<close> rejects, \<open>detect_component_with_retry\<close> makes
  exactly \<open>max_retries\<close> calls, takes no pause, and returns the default map.
\<close>

theorem C3_exhausted:
  assumes "json_loads lib (get_default_response lib) = Inr (JObject default_components)"
    and "0 \<le> max_retries"
    and "\<forall>k. int k < max_retries \<longrightarrow>
           (\<exists>r m. client prompt k = Content r \<and> json_loads lib (lower r) = Inl (JSONDecodeError m))"
  shows "detect_component_with_retry lib prompt client max_retries
           = (Inr (JObject default_components), \<lparr>calls = nat max_retries, slept = []\<rparr>)
         \<and> map fst default_components = EXPECTED_COMPONENTS
         \<and> (\<forall>(e, v)\<in>set default_components. v = JString '''')"
proof -
  have "\<forall>k. calls initial_state \<le> k \<and> int k < int (calls initial_state) + (max_retries - 0) \<longrightarrow>
          (\<exists>r m. client prompt k = Content r \<and> json_loads lib (lower r) = Inl (JSONDecodeError m))"
    using assms(3) by (simp add: initial_state_def)
  from retry_loop_unparseable [where c = client and p = prompt and st = initial_state
      and n = max_retries and retries = 0 and lib = lib, OF assms(1) this]
  have "detect_component_with_retry lib prompt client max_retries
           = (Inr (JObject default_components), \<lparr>calls = nat max_retries, slept = []\<rparr>)"
    by (simp add: detect_component_with_retry_def initial_state_def)
  moreover have "\<forall>(e, v)\<in>set default_components. v = JString ''''"
    using default_components_values by blast
  ultimately show ?thesis using default_components_keys by blast
qed

theorem C3_exhausted_witness:
  "json_loads reference_lib (get_default_response reference_lib) = Inr (JObject default_components)
   \<and> (0::int) \<le> 3
   \<and> (\<forall>k. \<exists>r m. always_prose ''Summarise the text.'' k = Content r
                 \<and> json_loads reference_lib (lower r) = Inl (JSONDecodeError m))
   \<and> detect_component_with_retry reference_lib ''Summarise the text.'' always_prose 3
       = (Inr (JObject default_components), \<lparr>calls = 3, slept = []\<rparr>)"
proof -
  have r: "json_loads reference_lib (get_default_response reference_lib) = Inr (JObject default_components)"
    by code_simp
  have b: "json_loads reference_lib (lower response_prose)
     = Inl (JSONDecodeError ''Expecting value: line 1 column 1 (char 0)'')"
    by code_simp
  then have a: "\<forall>k. \<exists>r m. always_prose ''Summarise the text.'' k = Content r
                 \<and> json_loads reference_lib (lower r) = Inl (JSONDecodeError m)"
    by (simp add: always_prose_def)
  then have a': "\<forall>k. int k < 3 \<longrightarrow> (\<exists>r m. always_prose ''Summarise the text.'' k = Content r
                 \<and> json_loads reference_lib (lower r) = Inl (JSONDecodeError m))"
    by blast
  have n: "(0::int) \<le> 3" by simp
  show ?thesis
    using r a
      C3_exhausted [where client = always_prose and prompt = "''Summarise the text.''"
        and lib = reference_lib and max_retries = 3, OF r n a']
    by simp
qed


text \<open>
  Claim C4, as stated, at a capability that raises on the first call and on the second
  returns the eight-key map with \<^verbatim>\<open>"Sum The List"\<close> and \<^verbatim>\<open>"No Loops"\<close> in it: the run
  stops after two calls, but what it returns is not that map. The validator lower-cases
  the whole response before parsing, values included.
\<close>

theorem C4_counterexample:
  "failing_once_capitals ''Summarise the text.'' 0 = Raises ''Connection error.''
   \<and> failing_once_capitals ''Summarise the text.'' 1 = Content response_capitals
   \<and> json_loads reference_lib response_capitals = Inr (JObject capital_components)
   \<and> detect_component_with_retry reference_lib ''Summarise the text.'' failing_once_capitals 3
       = (Inr (JObject canonical_components), \<lparr>calls = 2, slept = []\<rparr>)
   \<and> canonical_components \<noteq> capital_components"
  by code_simp

text \<open>
  Claim C4, amended. The capability raises on the first call and on the second returns
  a text whose lower-cased form parses to the object \<open>comps\<close>; \<open>cleaned\<close> is the map
  the validator makes of \<open>comps\<close>. Given that \<^verbatim>\<open>json.loads\<close> reads the serialisation of
  \<open>cleaned\<close> back and that the serialisation is not the default response,
  \<open>detect_component_with_retry\<close> returns \<open>cleaned\<close> after exactly two calls. \<open>cleaned\<close>
  has the eight keys, each with the value chosen from \<open>comps\<close>; it is \<open>comps\<close> itself
  when \<open>comps\<close> has exactly the eight keys in order and the ratio tells equal labels
  (ratio 1) from different ones (ratio below 1). So the map returned is the one the
  capability sent only up to the lower-casing of its text.
\<close>

theorem C4_second_attempt:
  assumes "client prompt 0 = Raises msg"
    and "client prompt 1 = Content r"
    and "json_loads lib (lower r) = Inr (JObject comps)"
    and "clean_components lib (JObject comps) (7 / 10) = Inr cleaned"
    and "json_loads lib (json_dumps lib (JObject cleaned)) = Inr (JObject cleaned)"
    and "json_dumps lib (JObject cleaned) \<noteq> get_default_response lib"
    and "2 \<le> max_retries"
  shows "(\<exists>st. detect_component_with_retry lib prompt client max_retries = (Inr (JObject cleaned), st)
            \<and> calls st = 2)
         \<and> map fst cleaned = EXPECTED_COMPONENTS
         \<and> (\<forall>(e, v)\<in>set cleaned. chosen lib comps (7 / 10) e v)
         \<and> (map fst comps = EXPECTED_COMPONENTS
              \<and> (\<forall>e\<in>set EXPECTED_COMPONENTS. \<forall>k\<in>set EXPECTED_COMPONENTS.
                     ratio lib e e = 1 \<and> (k \<noteq> e \<longrightarrow> ratio lib k e < 1))
              \<longrightarrow> cleaned = comps)"
proof -
  have a: "\<exists>st. detect_component_with_retry lib prompt client max_retries = (Inr (JObject cleaned), st)
            \<and> calls st = 2"
    by (rule detect_second_attempt [where client = client and prompt = prompt, OF assms])
  from clean_components_object [of lib comps "7 / 10"] assms(4)
  have b: "map fst cleaned = EXPECTED_COMPONENTS"
    and c: "\<forall>(e, v)\<in>set cleaned. chosen lib comps (7 / 10) e v"
    by simp_all
  have d: "map fst comps = EXPECTED_COMPONENTS
              \<and> (\<forall>e\<in>set EXPECTED_COMPONENTS. \<forall>k\<in>set EXPECTED_COMPONENTS.
                     ratio lib e e = 1 \<and> (k \<noteq> e \<longrightarrow> ratio lib k e < 1))
              \<longrightarrow> cleaned = comps"
  proof
    assume h: "map fst comps = EXPECTED_COMPONENTS
              \<and> (\<forall>e\<in>set EXPECTED_COMPONENTS. \<forall>k\<in>set EXPECTED_COMPONENTS.
                     ratio lib e e = 1 \<and> (k \<noteq> e \<longrightarrow> ratio lib k e < 1))"
    from clean_components_canonical [OF conjunct1 [OF h] conjunct2 [OF h], of "7 / 10"] assms(4)
    show "cleaned = comps" by simp
  qed
  show ?thesis
    by (intro conjI) (rule a b c d)+
qed

theorem C4_second_attempt_witness:
  "failing_once_capitals ''Summarise the text.'' 0 = Raises ''Connection error.''
   \<and> failing_once_capitals ''Summarise the text.'' 1 = Content response_capitals
   \<and> json_loads reference_lib (lower response_capitals) = Inr (JObject canonical_components)
   \<and> clean_components reference_lib (JObject canonical_components) (7 / 10) = Inr canonical_components
   \<and> json_loads reference_lib (json_dumps reference_lib (JObject canonical_components))
       = Inr (JObject canonical_components)
   \<and> json_dumps reference_lib (JObject canonical_components) \<noteq> get_default_response reference_lib
   \<and> (2::int) \<le> 3
   \<and> map fst canonical_components = EXPECTED_COMPONENTS
   \<and> list_all (\<lambda>e. list_all (\<lambda>k. ratio reference_lib e e = 1 \<and> (k \<noteq> e \<longrightarrow> ratio reference_lib k e < 1))
                  EXPECTED_COMPONENTS) EXPECTED_COMPONENTS
   \<and> (\<exists>st. detect_component_with_retry reference_lib ''Summarise the text.'' failing_once_capitals 3
              = (Inr (JObject canonical_components), st) \<and> calls st = 2)"
proof -
  have h1: "failing_once_capitals ''Summarise the text.'' 0 = Raises ''Connection error.''"
    by (simp add: failing_once_capitals_def)
  have h2: "failing_once_capitals ''Summarise the text.'' 1 = Content response_capitals"
    by (simp add: failing_once_capitals_def)
  have h3: "json_loads reference_lib (lower response_capitals) = Inr (JObject canonical_components)"
    by code_simp
  have h4: "clean_components reference_lib (JObject canonical_components) (7 / 10) = Inr canonical_components"
    by code_simp
  have h5: "json_loads reference_lib (json_dumps reference_lib (JObject canonical_components))
       = Inr (JObject canonical_components)"
    by code_simp
  have h6: "json_dumps reference_lib (JObject canonical_components) \<noteq> get_default_response reference_lib"
    by code_simp
  have h7: "(2::int) \<le> 3" by simp
  have h8: "map fst canonical_components = EXPECTED_COMPONENTS"
    by (simp add: canonical_components_def EXPECTED_COMPONENTS_def)
  have h9: "list_all (\<lambda>e. list_all (\<lambda>k. ratio reference_lib e e = 1 \<and> (k \<noteq> e \<longrightarrow> ratio reference_lib k e < 1))
                  EXPECTED_COMPONENTS) EXPECTED_COMPONENTS"
    by code_simp
  note run = C4_second_attempt [where client = failing_once_capitals and prompt = "''Summarise the text.''"
        and lib = reference_lib and max_retries = 3, OF h1 h2 h3 h4 h5 h6 h7]
  have c: "\<exists>st. detect_component_with_retry reference_lib ''Summarise the text.'' failing_once_capitals 3
              = (Inr (JObject canonical_components), st) \<and> calls st = 2"
    by (rule run [THEN conjunct1])
  show ?thesis
    by (intro conjI) (rule h1 h2 h3 h4 h5 h6 h7 h8 h9 c)+
qed

text \<open>
  Claim C5 at a failing input: the capability raises a rate-limit error whose wait
  field, \<^verbatim>\<open>1m2.5\<close>, is no number. \<open>component_detection\<close> pauses for 60 and then raises
  the \<^verbatim>\<open>TypeError\<close> of its own call with one argument; it returns no response. The
  retry loop counts that as a failed attempt, so the run pauses three times and ends in
  the default map.
\<close>

theorem C5_fallback_raises:
  "wait_field ''Rate limit reached. Please try again in 1m2.5s.'' = Inr ''1m2.5''
   \<and> (case py_float reference_lib ''1m2.5'' of Inl e \<Rightarrow> is_ValueError e | Inr w \<Rightarrow> False)
   \<and> component_detection reference_lib ''Summarise the text.'' rate_limited initial_state
       = (Inl missing_arguments, \<lparr>calls = 1, slept = [60]\<rparr>)
   \<and> detect_component_with_retry reference_lib ''Summarise the text.'' rate_limited 3
       = (Inr (JObject default_components), \<lparr>calls = 3, slept = [60, 60, 60]\<rparr>)"
  by code_simp

text \<open>
  Claim C6, as stated, at the response \<^verbatim>\<open>{"directive": null}\<close>: the validator's map, and
  the map the orchestrator returns, hold \<^verbatim>\<open>null\<close> under \<^verbatim>\<open>directive\<close>.
\<close>

theorem C6_counterexample:
  "validate_and_clean_response reference_lib response_null (7 / 10)
     = Inr (json_dumps reference_lib (JObject
         [(''profile/role'', JString ''''), (''directive'', JNull), (''workflows'', JString ''''),
          (''context'', JString ''''), (''examples'', JString ''''),
          (''output format/style'', JString ''''), (''constraints'', JString ''''),
          (''others'', JString '''')]))
   \<and> detect_component_with_retry reference_lib ''Summarise the text.'' (answering response_null) 3
     = (Inr (JObject
         [(''profile/role'', JString ''''), (''directive'', JNull), (''workflows'', JString ''''),
          (''context'', JString ''''), (''examples'', JString ''''),
          (''output format/style'', JString ''''), (''constraints'', JString ''''),
          (''others'', JString '''')]), \<lparr>calls = 1, slept = []\<rparr>)
   \<and> \<not> is_string JNull"
  by code_simp

text \<open>
  Claim C6, amended. Whenever \<open>validate_and_clean_response\<close> returns, it returns the
  serialisation of a map with exactly the eight keys, in order, and each value is the
  empty string or a value of the parsed response, of whatever JSON type that value is;
  when all values of the parsed response are strings, so are all eight. What the
  orchestrator returns is what \<^verbatim>\<open>json.loads\<close> reads from the serialisation of a map with
  exactly the eight keys.
\<close>

theorem C6_component_map:
  "(validate_and_clean_response lib response thr = Inr s \<longrightarrow>
      (\<exists>cleaned. s = json_dumps lib (JObject cleaned) \<and> map fst cleaned = EXPECTED_COMPONENTS
         \<and> (\<forall>(e, v)\<in>set cleaned. v = JString '''' \<or>
               (\<exists>d k. json_loads lib (lower response) = Inr (JObject d) \<and> map_of d k = Some v))))
   \<and> (json_loads lib (lower response) = Inr (JObject d) \<and> (\<forall>(k, v)\<in>set d. is_string v) \<longrightarrow>
        (\<exists>cleaned. validate_and_clean_response lib response thr = Inr (json_dumps lib (JObject cleaned))
           \<and> map fst cleaned = EXPECTED_COMPONENTS \<and> (\<forall>(e, v)\<in>set cleaned. is_string v)))
   \<and> (fst (detect_component_with_retry lib prompt client max_retries) = Inr m \<longrightarrow>
        (\<exists>cleaned. map fst cleaned = EXPECTED_COMPONENTS
           \<and> json_loads lib (json_dumps lib (JObject cleaned)) = Inr m))"
proof -
  have c: "\<exists>cleaned. map fst cleaned = EXPECTED_COMPONENTS
           \<and> json_loads lib (json_dumps lib (JObject cleaned)) = Inr m"
    if m: "fst (detect_component_with_retry lib prompt client max_retries) = Inr m"
  proof -
    let ?dr = "get_default_response lib"
    from retry_loop_result [of initial_state max_retries 0 lib prompt client ?dr]
    obtain st' where
      "retry_loop lib prompt client max_retries ?dr 0 initial_state = (json_loads lib ?dr, st')
       \<or> (\<exists>s d cleaned. retry_loop lib prompt client max_retries ?dr 0 initial_state = (Inr (JObject d), st')
             \<and> s \<noteq> ?dr \<and> json_loads lib s = Inr (JObject d)
             \<and> s = json_dumps lib (JObject cleaned) \<and> map fst cleaned = EXPECTED_COMPONENTS)"
      by blast
    then show ?thesis
    proof
      assume "retry_loop lib prompt client max_retries ?dr 0 initial_state = (json_loads lib ?dr, st')"
      then have "json_loads lib (json_dumps lib (JObject default_components)) = Inr m"
        using m by (simp add: detect_component_with_retry_def get_default_response_def)
      then show ?thesis using default_components_keys by blast
    next
      assume "\<exists>s d cleaned. retry_loop lib prompt client max_retries ?dr 0 initial_state = (Inr (JObject d), st')
             \<and> s \<noteq> ?dr \<and> json_loads lib s = Inr (JObject d)
             \<and> s = json_dumps lib (JObject cleaned) \<and> map fst cleaned = EXPECTED_COMPONENTS"
      then show ?thesis using m by (auto simp: detect_component_with_retry_def)
    qed
  qed
  show ?thesis
    using validate_returns [of lib response thr s] validate_strings [of lib response d thr] c
    by blast
qed

theorem C6_component_map_witness:
  "json_loads reference_lib (lower response_short) = Inr (JObject [(''directive'', JString ''do x'')])
   \<and> list_all (\<lambda>(k, v). is_string v) [(''directive'', JString ''do x'')]
   \<and> (\<exists>cleaned. validate_and_clean_response reference_lib response_short (7 / 10)
                   = Inr (json_dumps reference_lib (JObject cleaned))
         \<and> map fst cleaned = EXPECTED_COMPONENTS \<and> list_all (\<lambda>(e, v). is_string v) cleaned)
   \<and> fst (detect_component_with_retry reference_lib ''Summarise the text.'' always_failing 3)
       = Inr (JObject default_components)
   \<and> (\<exists>cleaned. map fst cleaned = EXPECTED_COMPONENTS
         \<and> json_loads reference_lib (json_dumps reference_lib (JObject cleaned))
             = Inr (JObject default_components))"
proof -
  have a: "json_loads reference_lib (lower response_short) = Inr (JObject [(''directive'', JString ''do x'')])"
    by code_simp
  have b: "\<forall>(k, v)\<in>set [(''directive'', JString ''do x'')]. is_string v"
    by simp
  have c: "fst (detect_component_with_retry reference_lib ''Summarise the text.'' always_failing 3)
       = Inr (JObject default_components)"
    by code_simp
  show ?thesis
    using a b c
      C6_component_map [of reference_lib response_short "7 / 10" _
        "[(''directive'', JString ''do x'')]" "''Summarise the text.''" always_failing 3
        "JObject default_components"]
    by (simp add: list_all_iff)
qed


section \<open>The claim about placeholder classification\<close>

lemma close_candidates_sound:
  "(score, x) \<in> set (close_candidates lib word cutoff ps) \<Longrightarrow> x \<in> set ps \<and> clears lib word cutoff x"
  by (induction ps) (auto simp: clears_def split: if_splits)

lemma close_candidates_none:
  "\<forall>x\<in>set ps. \<not> clears lib word cutoff x \<Longrightarrow> close_candidates lib word cutoff ps = []"
  by (induction ps) (auto simp: clears_def)

lemma max_from_member: "max_from best items \<in> set (best # items)"
  by (induction items arbitrary: best) (auto split: if_splits)

lemma nlargest1_subset: "set (nlargest1 result) \<subseteq> set result"
proof (cases result)
  case Nil
  then show ?thesis by (simp add: nlargest1_def)
next
  case (Cons item items)
  then show ?thesis using max_from_member [of item items] by (simp add: nlargest1_def)
qed

lemma get_close_matches_sound:
  assumes "x \<in> set (get_close_matches lib word ps cutoff)"
  shows "x \<in> set ps \<and> clears lib word cutoff x"
proof -
  from assms obtain score where "(score, x) \<in> set (nlargest1 (close_candidates lib word cutoff ps))"
    by (auto simp: get_close_matches_def)
  then have "(score, x) \<in> set (close_candidates lib word cutoff ps)"
    using nlargest1_subset by blast
  then show ?thesis by (rule close_candidates_sound)
qed

lemma get_close_matches_none:
  "\<forall>x\<in>set ps. \<not> clears lib word cutoff x \<Longrightarrow> get_close_matches lib word ps cutoff = []"
  by (simp add: get_close_matches_def close_candidates_none nlargest1_def)

lemma Others_category: "''Others'' \<in> set PLACEHOLDER_CATEGORIES"
  by (simp add: PLACEHOLDER_CATEGORIES_def)

lemma classify_body_content:
  assumes "llm placeholder prompt_template = Content content"
  shows "\<exists>c. classify_body lib llm placeholder prompt_template = Inr c
           \<and> (c = ''Others'' \<or> (c \<in> set PLACEHOLDER_CATEGORIES \<and> clears lib (strip content) (6 / 10) c))
           \<and> ((\<forall>x\<in>set PLACEHOLDER_CATEGORIES. \<not> clears lib (strip content) (6 / 10) x) \<longrightarrow> c = ''Others'')"
proof (cases "get_close_matches lib (strip content) PLACEHOLDER_CATEGORIES (6 / 10)")
  case Nil
  then show ?thesis using assms by (simp add: classify_body_def)
next
  case (Cons m ms)
  then have "m \<in> set (get_close_matches lib (strip content) PLACEHOLDER_CATEGORIES (6 / 10))"
    by simp
  from get_close_matches_sound [OF this]
  have "m \<in> set PLACEHOLDER_CATEGORIES" "clears lib (strip content) (6 / 10) m" by simp_all
  moreover have "classify_body lib llm placeholder prompt_template = Inr m"
    using assms Cons by (simp add: classify_body_def)
  ultimately show ?thesis by blast
qed

lemma classify_total:
  "\<exists>c. classify_placeholder_with_llm lib llm placeholder prompt_template = Inr c
       \<and> c \<in> set PLACEHOLDER_CATEGORIES"
proof (cases "llm placeholder prompt_template")
  case (Raises msg)
  then show ?thesis
    using Others_category by (simp add: classify_placeholder_with_llm_def classify_body_def)
next
  case (Content content)
  from classify_body_content [where llm = llm and placeholder = placeholder and prompt_template = prompt_template
        and content = content and lib = lib, OF this]
  show ?thesis
    using Others_category by (auto simp: classify_placeholder_with_llm_def)
qed

lemma classify_all_total:
  "\<exists>rs. classify_all lib llms prompt_template k entries = Inr rs
        \<and> map fst rs = map fst entries
        \<and> (\<forall>(p, c, pos)\<in>set rs. c \<in> set PLACEHOLDER_CATEGORIES)"
proof (induction entries arbitrary: k)
  case Nil
  then show ?case by simp
next
  case (Cons entry entries)
  obtain placeholder position where entry: "entry = (placeholder, position)"
    by (cases entry) auto
  from classify_total [of lib "llms k" placeholder prompt_template]
  obtain c where c: "classify_placeholder_with_llm lib (llms k) placeholder prompt_template = Inr c"
    "c \<in> set PLACEHOLDER_CATEGORIES" by blast
  from Cons.IH [of "Suc k"] obtain rs where
    rs: "classify_all lib llms prompt_template (Suc k) entries = Inr rs"
        "map fst rs = map fst entries" "\<forall>(p, c, pos)\<in>set rs. c \<in> set PLACEHOLDER_CATEGORIES"
    by blast
  have "classify_all lib llms prompt_template k (entry # entries) = Inr ((placeholder, c, position) # rs)"
    using entry c(1) rs(1) by simp
  moreover have "map fst ((placeholder, c, position) # rs) = map fst (entry # entries)"
    using entry rs(2) by simp
  moreover have "\<forall>(p, c, pos)\<in>set ((placeholder, c, position) # rs). c \<in> set PLACEHOLDER_CATEGORIES"
    using c(2) rs(3) by simp
  ultimately show ?case by blast
qed

text \<open>
  Claim C9. For every placeholder and template, whatever the capability returns or
  raises and whatever ratio the library computes, \<open>classify_placeholder_with_llm\<close>
  returns, and returns one of the five categories. It returns \<open>Others\<close> when the call
  raises, and when no category passes the cutoff 0.6 against the stripped answer; a
  category other than \<open>Others\<close> is returned only if it passes the cutoff. So
  \<open>identify_placeholders\<close> returns one record for every located placeholder, each with
  one of the five categories.
\<close>

theorem C9_classify_placeholder:
  "(\<exists>c. classify_placeholder_with_llm lib llm placeholder prompt_template = Inr c
        \<and> c \<in> set PLACEHOLDER_CATEGORIES)
   \<and> length PLACEHOLDER_CATEGORIES = 5
   \<and> (llm placeholder prompt_template = Raises msg \<longrightarrow>
        classify_placeholder_with_llm lib llm placeholder prompt_template = Inr ''Others'')
   \<and> (llm placeholder prompt_template = Content content
        \<and> (\<forall>x\<in>set PLACEHOLDER_CATEGORIES. \<not> clears lib (strip content) (6 / 10) x) \<longrightarrow>
        classify_placeholder_with_llm lib llm placeholder prompt_template = Inr ''Others'')
   \<and> (llm placeholder prompt_template = Content content
        \<and> classify_placeholder_with_llm lib llm placeholder prompt_template = Inr category
        \<and> category \<noteq> ''Others'' \<longrightarrow>
        clears lib (strip content) (6 / 10) category)
   \<and> (\<exists>rs. identify_placeholders lib llms prompt_template = Inr rs
          \<and> map fst rs = map fst (calculate_relative_word_positions prompt_template
                                     (detect_placeholder prompt_template))
          \<and> (\<forall>(p, c, pos)\<in>set rs. c \<in> set PLACEHOLDER_CATEGORIES))"
proof -
  have a: "length PLACEHOLDER_CATEGORIES = 5"
    by (simp add: PLACEHOLDER_CATEGORIES_def)
  have b: "classify_placeholder_with_llm lib llm placeholder prompt_template = Inr ''Others''"
    if "llm placeholder prompt_template = Raises msg"
    using that by (simp add: classify_placeholder_with_llm_def classify_body_def)
  have c: "classify_placeholder_with_llm lib llm placeholder prompt_template = Inr ''Others''"
    if "llm placeholder prompt_template = Content content"
      and "\<forall>x\<in>set PLACEHOLDER_CATEGORIES. \<not> clears lib (strip content) (6 / 10) x"
    using classify_body_content [where llm = llm and placeholder = placeholder and prompt_template = prompt_template
        and content = content and lib = lib, OF that(1)] that(2)
    by (auto simp: classify_placeholder_with_llm_def)
  have d: "clears lib (strip content) (6 / 10) category"
    if "llm placeholder prompt_template = Content content"
      and "classify_placeholder_with_llm lib llm placeholder prompt_template = Inr category"
      and "category \<noteq> ''Others''"
    using classify_body_content [where llm = llm and placeholder = placeholder and prompt_template = prompt_template
        and content = content and lib = lib, OF that(1)] that(2,3)
    by (auto simp: classify_placeholder_with_llm_def)
  have e: "\<exists>rs. identify_placeholders lib llms prompt_template = Inr rs
          \<and> map fst rs = map fst (calculate_relative_word_positions prompt_template
                                     (detect_placeholder prompt_template))
          \<and> (\<forall>(p, c, pos)\<in>set rs. c \<in> set PLACEHOLDER_CATEGORIES)"
    using classify_all_total [of lib llms prompt_template 0]
    by (simp add: identify_placeholders_def)
  show ?thesis
    using classify_total [of lib llm placeholder prompt_template] a b c d e by blast
qed

theorem C9_classify_placeholder_witness:
  "llm_failing ''{{x}}'' ''Tell me about {{x}}.'' = Raises ''Connection error.''
   \<and> classify_placeholder_with_llm reference_lib llm_failing ''{{x}}'' ''Tell me about {{x}}.'' = Inr ''Others''
   \<and> llm_answering ''I am not sure.'' ''{{x}}'' ''Tell me about {{x}}.'' = Content ''I am not sure.''
   \<and> list_all (\<lambda>x. \<not> clears reference_lib (strip ''I am not sure.'') (6 / 10) x) PLACEHOLDER_CATEGORIES
   \<and> classify_placeholder_with_llm reference_lib (llm_answering ''I am not sure.'') ''{{x}}''
        ''Tell me about {{x}}.'' = Inr ''Others''
   \<and> llm_answering '' user question '' ''{{x}}'' ''Tell me about {{x}}.'' = Content '' user question ''
   \<and> classify_placeholder_with_llm reference_lib (llm_answering '' user question '') ''{{x}}''
        ''Tell me about {{x}}.'' = Inr ''User Question''
   \<and> ''User Question'' \<noteq> ''Others''
   \<and> clears reference_lib (strip '' user question '') (6 / 10) ''User Question''"
proof -
  have h1: "llm_failing ''{{x}}'' ''Tell me about {{x}}.'' = Raises ''Connection error.''"
    by (simp add: llm_failing_def)
  have h2: "llm_answering ''I am not sure.'' ''{{x}}'' ''Tell me about {{x}}.'' = Content ''I am not sure.''"
    by (simp add: llm_answering_def)
  have h3: "list_all (\<lambda>x. \<not> clears reference_lib (strip ''I am not sure.'') (6 / 10) x) PLACEHOLDER_CATEGORIES"
    by code_simp
  then have h3': "\<forall>x\<in>set PLACEHOLDER_CATEGORIES. \<not> clears reference_lib (strip ''I am not sure.'') (6 / 10) x"
    by (simp add: list_all_iff)
  have h4: "llm_answering '' user question '' ''{{x}}'' ''Tell me about {{x}}.'' = Content '' user question ''"
    by (simp add: llm_answering_def)
  have h5: "classify_placeholder_with_llm reference_lib (llm_answering '' user question '') ''{{x}}''
        ''Tell me about {{x}}.'' = Inr ''User Question''"
    by code_simp
  have h6: "''User Question'' \<noteq> ''Others''" by simp
  note raising = C9_classify_placeholder [where lib = reference_lib and llm = llm_failing
      and placeholder = "''{{x}}''" and prompt_template = "''Tell me about {{x}}.''"
      and msg = "''Connection error.''" and content = "''I am not sure.''"
      and category = "''Others''" and llms = "\<lambda>k. llm_failing"]
  note unsure = C9_classify_placeholder [where lib = reference_lib and llm = "llm_answering ''I am not sure.''"
      and placeholder = "''{{x}}''" and prompt_template = "''Tell me about {{x}}.''"
      and msg = "''Connection error.''" and content = "''I am not sure.''"
      and category = "''Others''" and llms = "\<lambda>k. llm_failing"]
  note question = C9_classify_placeholder [where lib = reference_lib and llm = "llm_answering '' user question ''"
      and placeholder = "''{{x}}''" and prompt_template = "''Tell me about {{x}}.''"
      and msg = "''Connection error.''" and content = "'' user question ''"
      and category = "''User Question''" and llms = "\<lambda>k. llm_failing"]
  have a: "classify_placeholder_with_llm reference_lib llm_failing ''{{x}}'' ''Tell me about {{x}}.'' = Inr ''Others''"
    by (rule mp [OF raising [THEN conjunct2, THEN conjunct2, THEN conjunct1] h1])
  have b: "classify_placeholder_with_llm reference_lib (llm_answering ''I am not sure.'') ''{{x}}''
        ''Tell me about {{x}}.'' = Inr ''Others''"
    by (rule mp [OF unsure [THEN conjunct2, THEN conjunct2, THEN conjunct2, THEN conjunct1]
          conjI [OF h2 h3']])
  have c: "clears reference_lib (strip '' user question '') (6 / 10) ''User Question''"
    by (rule mp [OF question [THEN conjunct2, THEN conjunct2, THEN conjunct2, THEN conjunct2, THEN conjunct1]
          conjI [OF h4 conjI [OF h5 h6]]])
  show ?thesis
    by (intro conjI) (rule h1 a h2 h3 b h4 h5 h6 c)+
qed

end
